theory Spec2Isabelle
  imports Complex_Main
begin

section \<open>Python values shared by the two notebooks\<close>

text \<open>
  The exceptions the modelled cells can raise.  A cell that raises is a result
  \<open>Inl e\<close>; a cell that runs through is \<open>Inr v\<close>.
\<close>

datatype pyerr =
    IndexError
  | KeyError
  | TypeError
  | NameError
  | ValueError
  | OSError
  | FileNotFoundError

text \<open>
  Array entries are floating-point numbers.  The model keeps the finite values as
  rationals (rounding of the binary representation is not modelled) and keeps NaN
  as a value of its own, since the duplicate-coordinate compensation tests for it.
\<close>

datatype fl = NaN | Val rat

fun isnan :: "fl \<Rightarrow> bool" where
  "isnan NaN = True"
| "isnan (Val _) = False"

text \<open>
  \<open>x % m\<close> on floats: the result has the sign of the divisor.  The model is the
  exact modulus on the rationals.  The float64 operation agrees with it wherever
  its result is representable, in particular for \<open>0 \<le> x < m\<close>, where both return
  \<open>x\<close> itself; elsewhere the float64 result is the exact one rounded, which can
  reach the excluded end \<open>m\<close> (a tiny negative \<open>x\<close> gives \<open>m\<close>, not a value below
  \<open>m\<close>).  The sum and the difference around it in \<open>((lon + 180) % 360) - 180\<close>
  are exact here as well, and rounded in float64.  Statements below that depend
  on the exact modulus outside \<open>[0, m)\<close> say so.
\<close>

definition fmod :: "rat \<Rightarrow> rat \<Rightarrow> rat" where
  "fmod x m = x - m * of_int \<lfloor>x / m\<rfloor>"

text \<open>
  \<open>x // d\<close> on a numpy float array.  Division by zero does not raise there: it
  gives \<open>inf\<close> or \<open>nan\<close> (with a warning), which is no integer; that is \<open>None\<close>.
\<close>

definition np_floordiv :: "rat \<Rightarrow> rat \<Rightarrow> int option" where
  "np_floordiv x d = (if d = 0 then None else Some \<lfloor>x / d\<rfloor>)"

text \<open>\<open>mask.nonzero()[0]\<close>: the indices at which a boolean array is true.\<close>

definition nonzero :: "bool list \<Rightarrow> nat list" where
  "nonzero bs = filter (\<lambda>i. bs ! i) [0..<length bs]"

text \<open>\<open>a[0]\<close> on an array: IndexError when it is empty.\<close>

definition item0 :: "'a list \<Rightarrow> pyerr + 'a" where
  "item0 xs = (case xs of [] \<Rightarrow> Inl IndexError | x # _ \<Rightarrow> Inr x)"

text \<open>
  \<open>np.roll(a, k)\<close> along one axis: the entry at index \<open>i\<close> moves to index
  \<open>(i + k) mod n\<close>, so a positive shift moves entries to the right and a negative
  one to the left.  \<open>rotate\<close> of the list library rotates to the left.
\<close>

definition roll :: "int \<Rightarrow> 'a list \<Rightarrow> 'a list" where
  "roll k xs = (if xs = [] then xs else rotate (nat ((- k) mod int (length xs))) xs)"

section \<open>The CMIP6 notebook: grids and subset specifications\<close>

datatype calendar = Standard | Day360

record cftime =
  cal :: calendar
  year :: nat
  month :: nat
  day :: nat

text \<open>
  One time step of the primary variable: a surface field, indexed \<open>[lat][lon]\<close>,
  or a field on pressure levels, indexed \<open>[plev][lat][lon]\<close> (the dimension order
  of the archive is \<open>time, plev, lat, lon\<close>).
\<close>

datatype slab = Surface "fl list list" | Levels "fl list list list"

text \<open>An operation on the \<open>[lat][lon]\<close> field, applied at every level.\<close>

fun map_field :: "(fl list list \<Rightarrow> fl list list) \<Rightarrow> slab \<Rightarrow> slab" where
  "map_field f (Surface rows) = Surface (f rows)"
| "map_field f (Levels lv) = Levels (map f lv)"

text \<open>
  A dataset as the processing cell uses it: the coordinates \<open>time\<close>, \<open>lat\<close>,
  \<open>lon\<close>, and the primary variable, one slab per time step.
  \<open>lat_in_dims\<close> says whether \<open>'lat'\<close> is a dimension of the primary variable
  (it is not on a curvilinear grid).
\<close>

record dataset =
  time :: "cftime list"
  lat :: "rat list"
  lon :: "rat list"
  var :: "slab list"
  lat_in_dims :: bool
  source_id :: string

text \<open>One entry of \<open>subset_params_all\<close>.\<close>

record subset_params =
  sp_lat :: "rat \<times> rat"
  sp_lon :: "rat \<times> rat"
  sp_time :: "(string \<times> string \<times> string) list"
  fn_suffix :: string
  lon_range :: int
  lon_origin :: rat

subsection \<open>\<open>fix_lons\<close>\<close>

text \<open>\<open>ds.roll(lon=k, roll_coords=True)\<close>: coordinate and data move together.\<close>

definition roll_lon :: "int \<Rightarrow> dataset \<Rightarrow> dataset" where
  "roll_lon k ds = ds\<lparr>lon := roll k (lon ds), var := map (map_field (map (roll k))) (var ds)\<rparr>"

text \<open>\<open>ds.assign_coords(lon=...)\<close> with a function of the old coordinate.\<close>

definition assign_lon :: "(rat \<Rightarrow> rat) \<Rightarrow> dataset \<Rightarrow> dataset" where
  "assign_lon f ds = ds\<lparr>lon := map f (lon ds)\<rparr>"

definition fix_lons :: "dataset \<Rightarrow> subset_params \<Rightarrow> pyerr + dataset" where
  "fix_lons ds sp =
     (if lon_range sp = 180 then
        (let ds1 = (if \<exists>v \<in> set (lon ds). 180 < v
                    then assign_lon (\<lambda>v. fmod (v + 180) 360 - 180) ds else ds)
         in case item0 (lon ds1) of
              Inl e \<Rightarrow> Inl e
            | Inr v0 \<Rightarrow>
                if - 175 < v0
                then Inr (roll_lon (int (length (lon ds1)) div 2) ds1)
                else Inr ds1)
      else if lon_range sp = 360 then
        (let ds1 = assign_lon (\<lambda>v. fmod v 360) ds
         in case item0 (nonzero (map (\<lambda>v. np_floordiv v (lon_origin sp) = Some 1) (lon ds1))) of
              Inl e \<Rightarrow> Inl e
            | Inr k \<Rightarrow> Inr (roll_lon (- int k) ds1))
      else Inr ds)"

subsection \<open>Example grids and specifications\<close>

text \<open>
  A global grid of four longitudes counted from the prime meridian, with two
  latitudes and two time steps; entry \<open>Val (10 * i + j)\<close> sits at latitude index
  \<open>i\<close> and longitude index \<open>j\<close>.
\<close>

definition t_std :: "nat \<Rightarrow> nat \<Rightarrow> nat \<Rightarrow> cftime" where
  "t_std y m d = \<lparr>cal = Standard, year = y, month = m, day = d\<rparr>"

definition slab4 :: slab where
  "slab4 = Surface [[Val 0, Val 1, Val 2, Val 3], [Val 10, Val 11, Val 12, Val 13]]"

definition grid_0_360 :: dataset where
  "grid_0_360 =
     \<lparr>time = [t_std 2014 12 30, t_std 2014 12 31], lat = [- 45, 45],
      lon = [0, 90, 180, 270], var = [slab4, slab4],
      lat_in_dims = True, source_id = ''M1''\<rparr>"

text \<open>A regional grid: the same data on four longitudes east of the prime meridian.\<close>

definition grid_regional :: dataset where
  "grid_regional = grid_0_360\<lparr>lon := [10, 20, 30, 40]\<rparr>"

definition sp_180 :: subset_params where
  "sp_180 =
     \<lparr>sp_lat = (- 38, 40), sp_lon = (- 20, 54),
      sp_time = [(''historical'', ''1979-01-01'', ''2014-12-31'')],
      fn_suffix = ''_Africa'', lon_range = 180, lon_origin = - 180\<rparr>"

definition sp_360 :: subset_params where
  "sp_360 = sp_180\<lparr>lon_range := 360, lon_origin := 60\<rparr>"

text \<open>The grids that \<open>fix_lons\<close> returns on these examples.\<close>

definition slab4_rolled2 :: slab where
  "slab4_rolled2 = Surface [[Val 2, Val 3, Val 0, Val 1], [Val 12, Val 13, Val 10, Val 11]]"

definition slab4_rolled3 :: slab where
  "slab4_rolled3 = Surface [[Val 1, Val 2, Val 3, Val 0], [Val 11, Val 12, Val 13, Val 10]]"

definition grid_0_360_as_180 :: dataset where
  "grid_0_360_as_180 =
     grid_0_360\<lparr>lon := [- 180, - 90, 0, 90], var := [slab4_rolled2, slab4_rolled2]\<rparr>"

definition grid_0_360_from_60 :: dataset where
  "grid_0_360_from_60 =
     grid_0_360\<lparr>lon := [90, 180, 270, 0], var := [slab4_rolled3, slab4_rolled3]\<rparr>"

definition grid_regional_rolled :: dataset where
  "grid_regional_rolled =
     grid_regional\<lparr>lon := [30, 40, 10, 20], var := [slab4_rolled2, slab4_rolled2]\<rparr>"

text \<open>
  Two global grids that are not stored in increasing order of the requested
  convention: one counted from \<open>-170\<close>, requested in the 360 convention from
  origin 10, and one stored as \<open>[0:180 -180:0]\<close>, requested in the 180 convention.
\<close>

definition grid_from_west :: dataset where
  "grid_from_west = grid_0_360\<lparr>lon := [- 170, - 80, 10, 100]\<rparr>"

definition sp_360_from_10 :: subset_params where
  "sp_360_from_10 = sp_360\<lparr>lon_origin := 10\<rparr>"

definition grid_from_10 :: dataset where
  "grid_from_10 =
     grid_0_360\<lparr>lon := [10, 100, 190, 280], var := [slab4_rolled2, slab4_rolled2]\<rparr>"

definition grid_east_west :: dataset where
  "grid_east_west = grid_0_360\<lparr>lon := [0, 90, - 180, - 90]\<rparr>"

subsection \<open>Range selection on the longitude coordinate\<close>

text \<open>
  \<open>ds.sel(lon=slice(a, b))\<close>, as the spatial subsetting calls it, on an increasing
  index: the labels are located by binary search (the first position not below
  \<open>a\<close>, the first position above \<open>b\<close>), and the positions in between are
  returned as one block.
\<close>

definition slice_bounds :: "rat \<Rightarrow> rat \<Rightarrow> rat list \<Rightarrow> nat \<times> nat" where
  "slice_bounds a b xs =
     (length (takeWhile (\<lambda>v. v < a) xs), length (takeWhile (\<lambda>v. v \<le> b) xs))"

definition sel_slice :: "rat \<Rightarrow> rat \<Rightarrow> rat list \<Rightarrow> rat list" where
  "sel_slice a b xs = (case slice_bounds a b xs of (i, j) \<Rightarrow> take (j - i) (drop i xs))"

subsection \<open>Layouts of a source axis\<close>

text \<open>
  The definitions of this subsection describe the source axis; they are the
  hypothesis of the monotonicity theorem, not a part of the program.

  \<open>remapped\<close> is the axis after the first step of \<open>fix_lons\<close>, the remap into the
  range of the requested convention, before any rotation.  \<open>canonical\<close> is the
  range of the convention, \<open>[-180, 180)\<close> or \<open>[0, 360)\<close>.
\<close>

definition remapped :: "subset_params \<Rightarrow> rat list \<Rightarrow> rat list" where
  "remapped sp xs =
     (if lon_range sp = 180 then
        (if \<exists>v \<in> set xs. 180 < v then map (\<lambda>v. fmod (v + 180) 360 - 180) xs else xs)
      else map (\<lambda>v. fmod v 360) xs)"

definition canonical :: "subset_params \<Rightarrow> rat \<Rightarrow> bool" where
  "canonical sp v \<longleftrightarrow>
     (if lon_range sp = 180 then - 180 \<le> v \<and> v < 180 else 0 \<le> v \<and> v < 360)"

text \<open>
  An axis is cut at position \<open>m\<close> when it consists of two strictly increasing
  runs, the second one, from position \<open>m\<close> on, wholly below the first: it is a
  strictly increasing axis that was rotated, and its smallest value sits at
  position \<open>m\<close> (at the start when \<open>m\<close> is 0 or the length).
\<close>

definition cut_at :: "nat \<Rightarrow> rat list \<Rightarrow> bool" where
  "cut_at m ys \<longleftrightarrow> sorted_wrt (<) (drop m ys @ take m ys)"

text \<open>The window \<open>[d, 2 * d)\<close> that starts at the requested origin.\<close>

definition in_window :: "rat \<Rightarrow> rat \<Rightarrow> bool" where
  "in_window d v \<longleftrightarrow> d \<le> v \<and> v < 2 * d"

text \<open>
  The aligned source axes.  The remapped axis is not empty, lies within the
  canonical range, and
  \<^item> for the 180 convention, either starts at or below \<open>-175\<close> and is strictly
    increasing, or starts above \<open>-175\<close> and is cut exactly before its last
    \<open>n div 2\<close> values (the layout \<open>[0:180 -180:0]\<close> with a western half of
    \<open>n div 2\<close> values);
  \<^item> for the 360 convention, is cut at the first position, in axis order, whose
    value lies in the window \<open>[lon_origin, 2 * lon_origin)\<close>.
\<close>

definition aligned_source :: "subset_params \<Rightarrow> rat list \<Rightarrow> bool" where
  "aligned_source sp xs \<longleftrightarrow>
     (let ys = remapped sp xs; n = length ys in
      ys \<noteq> [] \<and> (\<forall>v \<in> set ys. canonical sp v) \<and>
      (if lon_range sp = 180 then
         (if - 175 < hd ys then cut_at (n - n div 2) ys else sorted_wrt (<) ys)
       else lon_range sp = 360 \<and>
         (\<exists>m \<in> set [0..<n]. cut_at m ys \<and> in_window (lon_origin sp) (ys ! m)
              \<and> (\<forall>i \<in> set [0..<m]. \<not> in_window (lon_origin sp) (ys ! i)))))"

section \<open>The CMIP6 notebook: the catalog query\<close>

text \<open>
  One entry of \<open>data_params_all\<close>: a dict from column names to values, in
  insertion order.  The keys of a dict are distinct.
\<close>

type_synonym pydict = "(string \<times> string) list"

definition keys :: "pydict \<Rightarrow> string list" where
  "keys d = map fst d"

text \<open>\<open>d[k]\<close>: KeyError when the key is missing.\<close>

definition getitem :: "pydict \<Rightarrow> string \<Rightarrow> pyerr + string" where
  "getitem d k = (case map_of d k of None \<Rightarrow> Inl KeyError | Some v \<Rightarrow> Inr v)"

text \<open>Sequencing of steps that can raise, and a list comprehension over such steps.\<close>

definition bind_err :: "pyerr + 'a \<Rightarrow> ('a \<Rightarrow> pyerr + 'b) \<Rightarrow> pyerr + 'b" where
  "bind_err r f = (case r of Inl e \<Rightarrow> Inl e | Inr x \<Rightarrow> f x)"

fun map_err :: "('a \<Rightarrow> pyerr + 'b) \<Rightarrow> 'a list \<Rightarrow> pyerr + 'b list" where
  "map_err f [] = Inr []"
| "map_err f (x # xs) =
     bind_err (f x) (\<lambda>y. bind_err (map_err f xs) (\<lambda>ys. Inr (y # ys)))"

text \<open>\<open>sep.join(parts)\<close>.\<close>

fun join :: "string \<Rightarrow> string list \<Rightarrow> string" where
  "join sep [] = []"
| "join sep [x] = x"
| "join sep (x # y # ys) = x @ sep @ join sep (y # ys)"

text \<open>
  What \<open>itemgetter(*idx)(ks)\<close> returns: with one index the item itself, a string;
  with several a tuple of items; with none the constructor raises TypeError.
  The indices come from \<open>nonzero\<close> on an array as long as \<open>ks\<close>.
\<close>

datatype pyobj = Str string | Tuple "string list"

definition itemgetter :: "nat list \<Rightarrow> string list \<Rightarrow> pyerr + pyobj" where
  "itemgetter idx ks =
     (case idx of
        [] \<Rightarrow> Inl TypeError
      | [i] \<Rightarrow> Inr (Str (ks ! i))
      | _ \<Rightarrow> Inr (Tuple (map (\<lambda>i. ks ! i) idx)))"

text \<open>\<open>for k in obj\<close>: a string is iterated letter by letter, a tuple item by item.\<close>

fun iter :: "pyobj \<Rightarrow> string list" where
  "iter (Str s) = map (\<lambda>c. [c]) s"
| "iter (Tuple ks) = ks"

text \<open>The predicate \<open>k + " == '" + d[k] + "'"\<close>.\<close>

definition eq_pred :: "pydict \<Rightarrow> string \<Rightarrow> pyerr + string" where
  "eq_pred d k =
     bind_err (getitem d k) (\<lambda>v. Inr (k @ '' == '' @ [CHR 0x27] @ v @ [CHR 0x27]))"

text \<open>
  \<open>source_calls\<close>: for each key of the first entry, in order, whether
  \<open>len(np.unique([x[key] for x in data_params_all])) == 1\<close>.  (The cell writes
  the flag at \<open>list(keys).index(key)\<close>, which is the position of the key.)
\<close>

definition source_calls :: "pydict list \<Rightarrow> pydict \<Rightarrow> pyerr + bool list" where
  "source_calls params d0 =
     map_err (\<lambda>key. bind_err (map_err (\<lambda>x. getitem x key) params)
                        (\<lambda>vals. Inr (length (remdups vals) = 1)))
             (keys d0)"

text \<open>One OR group: \<open>' or '.join([k + " == '" + dp[k] + "'" for dp in data_params_all])\<close>.\<close>

definition or_group :: "pydict list \<Rightarrow> string \<Rightarrow> pyerr + string" where
  "or_group params k =
     bind_err (map_err (\<lambda>dp. eq_pred dp k) params) (\<lambda>ps. Inr (join '' or '' ps))"

text \<open>
  The tail the cell appends for the keys that vary:
  \<open>' and (' + ') and ('.join([... for k in ks]) + ')'\<close>.
\<close>

definition or_tail :: "pydict list \<Rightarrow> string list \<Rightarrow> pyerr + string" where
  "or_tail params ks =
     bind_err (map_err (or_group params) ks) (\<lambda>gs.
       Inr ('' and ('' @ join '') and ('' gs @ '')''))"

text \<open>
  The cell that builds \<open>subset_query\<close>.  The keys with one common value go through
  \<open>itemgetter\<close> and are iterated as they come back.  The keys that vary are treated
  in two branches: with exactly one such key the \<open>itemgetter\<close> result is wrapped in
  a list (a tuple there could not be concatenated with a string), with several it
  is iterated as a tuple.
\<close>

definition subset_query :: "pydict list \<Rightarrow> pyerr + string" where
  "subset_query params =
     (case params of
        [] \<Rightarrow> Inl IndexError
      | d0 # _ \<Rightarrow>
          bind_err (source_calls params d0) (\<lambda>flags.
          bind_err (itemgetter (nonzero flags) (keys d0)) (\<lambda>same.
          bind_err (map_err (eq_pred d0) (iter same)) (\<lambda>preds.
            let q = join '' and '' preds;
                varying = nonzero (map Not flags)
            in if length varying = 1 then
                 bind_err (itemgetter varying (keys d0)) (\<lambda>k.
                 bind_err (case k of Str s \<Rightarrow> or_tail params [s] | Tuple _ \<Rightarrow> Inl TypeError)
                   (\<lambda>t. Inr (q @ t)))
               else if 1 < length varying then
                 bind_err (itemgetter varying (keys d0)) (\<lambda>ks.
                 bind_err (or_tail params (iter ks)) (\<lambda>t. Inr (q @ t)))
               else Inr q))))"

subsection \<open>Example download specifications\<close>

definition dp :: "string \<Rightarrow> string \<Rightarrow> pydict" where
  "dp e v = [(''experiment_id'', e), (''table_id'', ''day''),
             (''variable_id'', v), (''member_id'', ''r1i1p1f1'')]"

text \<open>The \<open>data_params_all\<close> of the notebook.\<close>

definition data_params_all :: "pydict list" where
  "data_params_all =
     [dp ''historical'' ''pr'', dp ''ssp370'' ''pr'', dp ''ssp585'' ''pr'',
      dp ''historical'' ''tas'', dp ''ssp370'' ''pr'', dp ''ssp585'' ''tas'']"

text \<open>Two experiments of one variable, with two keys each: one key is common.\<close>

definition params_one_common :: "pydict list" where
  "params_one_common =
     [[(''experiment_id'', ''historical''), (''variable_id'', ''pr'')],
      [(''experiment_id'', ''ssp370''), (''variable_id'', ''pr'')]]"

text \<open>Two entries that differ in every key.\<close>

definition params_no_common :: "pydict list" where
  "params_no_common =
     [[(''experiment_id'', ''historical''), (''variable_id'', ''pr'')],
      [(''experiment_id'', ''ssp370''), (''variable_id'', ''tas'')]]"

subsection \<open>The query in the words of the specification\<close>

text \<open>
  The query the specification describes, written down directly: one equality for
  each key whose value is the same in all entries, then one parenthesised OR group
  for each key whose value varies, all joined by \<open>and\<close>.  The cell is compared
  with it below.
\<close>

definition value_of :: "pydict \<Rightarrow> string \<Rightarrow> string" where
  "value_of d k = the (map_of d k)"

definition equality :: "pydict \<Rightarrow> string \<Rightarrow> string" where
  "equality d k = k @ '' == '' @ [CHR 0x27] @ value_of d k @ [CHR 0x27]"

definition common_key :: "pydict list \<Rightarrow> string \<Rightarrow> bool" where
  "common_key params k \<longleftrightarrow> length (remdups (map (\<lambda>d. value_of d k) params)) = 1"

definition spec_query :: "pydict list \<Rightarrow> string" where
  "spec_query params =
     (let ks = keys (hd params)
      in join '' and ''
           (map (equality (hd params)) (filter (common_key params) ks)
            @ map (\<lambda>k. ''('' @ join '' or '' (map (\<lambda>d. equality d k) params) @ '')'')
                (filter (\<lambda>k. \<not> common_key params k) ks)))"

section \<open>The CMIP6 notebook: the file-existence gate\<close>









subsection \<open>Example specifications and disks\<close>




section \<open>The CMIP6 notebook: time subsetting\<close>

text \<open>
  \<open>re.sub('-31', '-30', s)\<close>: every occurrence of \<open>-31\<close>, found from the left
  without overlap, is replaced by \<open>-30\<close>.
\<close>

fun sub_31_30 :: "string \<Rightarrow> string" where
  "sub_31_30 (a # b # c # cs) =
     (if a = CHR ''-'' \<and> b = CHR ''3'' \<and> c = CHR ''1''
      then ''-30'' @ sub_31_30 cs
      else a # sub_31_30 (b # c # cs))"
| "sub_31_30 cs = cs"

text \<open>Chronological order of two time stamps of one axis.\<close>

definition time_less :: "cftime \<Rightarrow> cftime \<Rightarrow> bool" where
  "time_less a b \<longleftrightarrow>
     year a < year b \<or> (year a = year b \<and>
       (month a < month b \<or> (month a = month b \<and> day a < day b)))"

text \<open>\<open>ds.time.max()\<close>: the latest time stamp; a reduction of an empty axis raises.\<close>

definition time_max :: "cftime list \<Rightarrow> pyerr + cftime" where
  "time_max ts =
     (case ts of
        [] \<Rightarrow> Inl ValueError
      | t # rest \<Rightarrow> Inr (foldl (\<lambda>a b. if time_less a b then b else a) t rest))"

text \<open>
  The test for a calendar of 30-day months:
  \<open>(ds.time.max().dt.day == 30) | (type(ds.time.values[0]) == Datetime360Day)\<close>.
  Both operands of \<open>|\<close> are evaluated.
\<close>

definition is_30day :: "dataset \<Rightarrow> pyerr + bool" where
  "is_30day ds =
     bind_err (time_max (time ds)) (\<lambda>mx.
     bind_err (item0 (time ds)) (\<lambda>t0.
       Inr (day mx = 30 \<or> cal t0 = Day360)))"

text \<open>\<open>subset_params['time'][experiment_id]\<close>: the start and the end date.\<close>

definition time_range :: "subset_params \<Rightarrow> string \<Rightarrow> pyerr + string \<times> string" where
  "time_range sp experiment =
     (case map_of (sp_time sp) experiment of None \<Rightarrow> Inl KeyError | Some r \<Rightarrow> Inr r)"

text \<open>
  The time subsetting of the processing cell.  \<open>sel\<close> stands for the library call
  \<open>ds_tmp.sel(time=slice(start, end))\<close>; the cell decides only which end date it
  is given.  The calendar is tested on \<open>ds\<close>, the selection is made on \<open>ds_tmp\<close>.
\<close>

definition time_subset ::
  "(string \<Rightarrow> string \<Rightarrow> dataset \<Rightarrow> pyerr + dataset)
     \<Rightarrow> dataset \<Rightarrow> dataset \<Rightarrow> subset_params \<Rightarrow> string \<Rightarrow> pyerr + dataset" where
  "time_subset sel ds ds_tmp sp experiment =
     bind_err (is_30day ds) (\<lambda>thirty.
     bind_err (time_range sp experiment) (\<lambda>(start, end_date).
       if thirty then sel start (sub_31_30 end_date) ds_tmp
       else sel start end_date ds_tmp))"

subsection \<open>An example selection and a 360-day grid\<close>

text \<open>
  A stand-in for the library selection, used to run the cell on examples: it reads
  dates of the form \<open>YYYY-MM-DD\<close>, refuses a day the calendar of the axis does
  not have, and keeps the time steps from the start date to the end date.
\<close>

definition digit_val :: "char \<Rightarrow> nat option" where
  "digit_val c =
     (let n = of_char c :: nat in if 48 \<le> n \<and> n \<le> 57 then Some (n - 48) else None)"

fun read_nat :: "nat \<Rightarrow> string \<Rightarrow> nat option" where
  "read_nat acc [] = Some acc"
| "read_nat acc (c # cs) =
     (case digit_val c of None \<Rightarrow> None | Some d \<Rightarrow> read_nat (10 * acc + d) cs)"

definition read_date :: "string \<Rightarrow> (nat \<times> nat \<times> nat) option" where
  "read_date s =
     (if length s = 10 \<and> s ! 4 = CHR ''-'' \<and> s ! 7 = CHR ''-'' then
        (case (read_nat 0 (take 4 s), read_nat 0 (take 2 (drop 5 s)), read_nat 0 (drop 8 s)) of
           (Some y, Some m, Some d) \<Rightarrow> Some (y, m, d)
         | _ \<Rightarrow> None)
      else None)"

definition days_in_month :: "calendar \<Rightarrow> nat \<Rightarrow> nat \<Rightarrow> nat" where
  "days_in_month c y m =
     (if c = Day360 then 30
      else if m = 2 then (if y mod 4 = 0 \<and> (y mod 100 \<noteq> 0 \<or> y mod 400 = 0) then 29 else 28)
      else if m \<in> {4, 6, 9, 11} then 30 else 31)"

definition valid_date :: "calendar \<Rightarrow> nat \<times> nat \<times> nat \<Rightarrow> bool" where
  "valid_date c ymd =
     (case ymd of (y, m, d) \<Rightarrow> 1 \<le> m \<and> m \<le> 12 \<and> 1 \<le> d \<and> d \<le> days_in_month c y m)"

definition stamp :: "calendar \<Rightarrow> nat \<times> nat \<times> nat \<Rightarrow> cftime" where
  "stamp c ymd = (case ymd of (y, m, d) \<Rightarrow> \<lparr>cal = c, year = y, month = m, day = d\<rparr>)"

definition sel_ymd :: "string \<Rightarrow> string \<Rightarrow> dataset \<Rightarrow> pyerr + dataset" where
  "sel_ymd start end_date ds =
     (case (item0 (time ds), read_date start, read_date end_date) of
        (Inr t0, Some a, Some b) \<Rightarrow>
          if valid_date (cal t0) a \<and> valid_date (cal t0) b then
            (let keep = filter (\<lambda>i. \<not> time_less (time ds ! i) (stamp (cal t0) a)
                                    \<and> \<not> time_less (stamp (cal t0) b) (time ds ! i))
                          [0..<length (time ds)]
             in Inr (ds\<lparr>time := map (\<lambda>i. time ds ! i) keep,
                         var := map (\<lambda>i. var ds ! i) keep\<rparr>))
          else Inl ValueError
      | _ \<Rightarrow> Inl ValueError)"

definition t_360 :: "nat \<Rightarrow> nat \<Rightarrow> nat \<Rightarrow> cftime" where
  "t_360 y m d = \<lparr>cal = Day360, year = y, month = m, day = d\<rparr>"

text \<open>Monthly data on a 360-day calendar, stamped mid-month.\<close>

definition grid_360day :: dataset where
  "grid_360day =
     grid_0_360\<lparr>time := [t_360 2014 11 16, t_360 2014 12 16, t_360 2015 1 16],
                 var := [slab4, slab4_rolled2, slab4_rolled3]\<rparr>"

section \<open>The CMIP6 notebook: duplicate coordinates\<close>

text \<open>\<open>np.round(x, 10)\<close>: ten decimals, a tie going to the even neighbour.\<close>

definition round_half_even :: "rat \<Rightarrow> int" where
  "round_half_even x =
     (let f = \<lfloor>x\<rfloor>; r = x - of_int f
      in if r < 1 / 2 then f else if 1 / 2 < r then f + 1 else if even f then f else f + 1)"

definition np_round10 :: "rat \<Rightarrow> rat" where
  "np_round10 x = of_int (round_half_even (x * 10 ^ 10)) / 10 ^ 10"

text \<open>\<open>len(np.unique(np.round(coord.values, 10))) != ds.dims[name]\<close>.\<close>

definition has_duplicates :: "rat list \<Rightarrow> bool" where
  "has_duplicates xs \<longleftrightarrow> length (remdups (map np_round10 xs)) \<noteq> length xs"

text \<open>
  The values of a reference slice: a vector when the primary variable is a surface
  field, a matrix whose first axis is the pressure level when it has levels.
\<close>

datatype ndarray = Vec "fl list" | Mat "fl list list"

text \<open>
  The reference slices: \<open>ds.isel(lon=1, time=1)[variable_id].values\<close>, over \<open>lat\<close>
  (and over \<open>plev\<close> and \<open>lat\<close> when there are levels), and
  \<open>ds.isel(lat=1, time=1)[variable_id].values\<close>, over \<open>lon\<close>.  Position 1 is the
  second entry of a dimension; \<open>isel\<close> raises IndexError on a dimension that has no
  second entry.
\<close>

definition ref_over_lat :: "dataset \<Rightarrow> pyerr + ndarray" where
  "ref_over_lat ds =
     (if length (lon ds) < 2 \<or> length (time ds) < 2 then Inl IndexError
      else Inr (case var ds ! 1 of
                  Surface rows \<Rightarrow> Vec (map (\<lambda>row. row ! 1) rows)
                | Levels lv \<Rightarrow> Mat (map (map (\<lambda>row. row ! 1)) lv)))"

definition ref_over_lon :: "dataset \<Rightarrow> pyerr + ndarray" where
  "ref_over_lon ds =
     (if length (lat ds) < 2 \<or> length (time ds) < 2 then Inl IndexError
      else Inr (case var ds ! 1 of
                  Surface rows \<Rightarrow> Vec (rows ! 1)
                | Levels lv \<Rightarrow> Mat (map (\<lambda>rows. rows ! 1) lv)))"

text \<open>
  \<open>(~np.isnan(a)).nonzero()[0]\<close>: on a vector, the positions of the entries that
  are not NaN; on a matrix, the first-axis index of every entry that is not NaN, in
  row-major order (so an index is repeated once per such entry of its row).
\<close>

fun notnan_axis0 :: "ndarray \<Rightarrow> nat list" where
  "notnan_axis0 (Vec xs) = nonzero (map (\<lambda>v. \<not> isnan v) xs)"
| "notnan_axis0 (Mat m) =
     concat (map (\<lambda>p. map (\<lambda>_. p) (nonzero (map (\<lambda>v. \<not> isnan v) (m ! p)))) [0..<length m])"

text \<open>
  \<open>ds.isel(lat=idx, drop=True)\<close> and \<open>ds.isel(lon=idx, drop=True)\<close> with an index
  array: IndexError when a position is out of bounds for the dimension.
\<close>

definition isel_lat :: "nat list \<Rightarrow> dataset \<Rightarrow> pyerr + dataset" where
  "isel_lat idx ds =
     (if \<exists>i \<in> set idx. length (lat ds) \<le> i then Inl IndexError
      else Inr (ds\<lparr>lat := map (\<lambda>i. lat ds ! i) idx,
                    var := map (map_field (\<lambda>rows. map (\<lambda>i. rows ! i) idx)) (var ds)\<rparr>))"

definition isel_lon :: "nat list \<Rightarrow> dataset \<Rightarrow> pyerr + dataset" where
  "isel_lon idx ds =
     (if \<exists>j \<in> set idx. length (lon ds) \<le> j then Inl IndexError
      else Inr (ds\<lparr>lon := map (\<lambda>j. lon ds ! j) idx,
                    var := map (map_field (map (\<lambda>row. map (\<lambda>j. row ! j) idx))) (var ds)\<rparr>))"

text \<open>The two warnings of the compensation; each names the model and the axis.\<close>

datatype warning = Duplicate_lat string | Duplicate_lon string

text \<open>
  The compensation of the processing cell (``Fix coordinate doubling''), one
  definition for each of its two tests: first the latitudes, then, on the result,
  the longitudes.
\<close>

definition drop_nan_lat :: "dataset \<Rightarrow> pyerr + (warning list \<times> dataset)" where
  "drop_nan_lat ds =
     (if has_duplicates (lat ds) then
        bind_err (ref_over_lat ds) (\<lambda>ref.
        bind_err (isel_lat (notnan_axis0 ref) ds) (\<lambda>ds1.
          Inr ([Duplicate_lat (source_id ds1)], ds1)))
      else Inr ([], ds))"

definition drop_nan_lon :: "dataset \<Rightarrow> pyerr + (warning list \<times> dataset)" where
  "drop_nan_lon ds =
     (if has_duplicates (lon ds) then
        bind_err (ref_over_lon ds) (\<lambda>ref.
        bind_err (isel_lon (notnan_axis0 ref) ds) (\<lambda>ds1.
          Inr ([Duplicate_lon (source_id ds1)], ds1)))
      else Inr ([], ds))"

definition fix_doubling :: "dataset \<Rightarrow> pyerr + (warning list \<times> dataset)" where
  "fix_doubling ds =
     (if lat_in_dims ds then
        bind_err (drop_nan_lat ds) (\<lambda>(w1, ds1).
        bind_err (drop_nan_lon ds1) (\<lambda>(w2, ds2).
          Inr (w1 @ w2, ds2)))
      else Inr ([], ds))"

subsection \<open>Shapes, and the positions the reference slice names\<close>

text \<open>
  The definitions of this subsection state the properties of the compensation;
  they are not a part of the program.

  The shape of a dataset: the primary variable has one slab per time step, and in
  every slab (at every level) one row per latitude and one entry per longitude.
\<close>

fun fields_of :: "slab \<Rightarrow> fl list list list" where
  "fields_of (Surface rows) = [rows]"
| "fields_of (Levels lv) = lv"

definition well_shaped :: "dataset \<Rightarrow> bool" where
  "well_shaped ds \<longleftrightarrow>
     length (var ds) = length (time ds)
     \<and> (\<forall>s \<in> set (var ds). \<forall>rows \<in> set (fields_of s).
           length rows = length (lat ds) \<and> (\<forall>row \<in> set rows. length row = length (lon ds)))"

text \<open>The primary variable has the dimensions \<open>time, lat, lon\<close> and no others.\<close>

fun is_surface :: "slab \<Rightarrow> bool" where
  "is_surface (Surface _) = True"
| "is_surface (Levels _) = False"

definition surface :: "dataset \<Rightarrow> bool" where
  "surface ds \<longleftrightarrow> list_all is_surface (var ds)"

text \<open>The surface field of time step \<open>t\<close>.\<close>

definition surface_at :: "dataset \<Rightarrow> nat \<Rightarrow> fl list list" where
  "surface_at ds t = (case var ds ! t of Surface rows \<Rightarrow> rows | Levels _ \<Rightarrow> [])"

text \<open>
  The latitude positions at which the primary variable is not NaN at the second
  time step and the second longitude, and the longitude positions at which it is
  not NaN at the second time step and the second latitude.
\<close>

definition notnan_lat :: "dataset \<Rightarrow> nat set" where
  "notnan_lat ds = {i. \<not> isnan (surface_at ds 1 ! i ! 1)}"

definition notnan_lon :: "dataset \<Rightarrow> nat set" where
  "notnan_lon ds = {j. \<not> isnan (surface_at ds 1 ! 1 ! j)}"

text \<open>
  A dataset restricted to the latitude positions \<open>K\<close>, or to the longitude
  positions \<open>J\<close>, in their order: the coordinate and every field alike.
\<close>

definition keep_lat :: "nat set \<Rightarrow> dataset \<Rightarrow> dataset" where
  "keep_lat K ds = ds\<lparr>lat := nths (lat ds) K, var := map (map_field (\<lambda>rows. nths rows K)) (var ds)\<rparr>"

definition keep_lon :: "nat set \<Rightarrow> dataset \<Rightarrow> dataset" where
  "keep_lon J ds =
     ds\<lparr>lon := nths (lon ds) J, var := map (map_field (map (\<lambda>row. nths row J))) (var ds)\<rparr>"

subsection \<open>Example grids with doubled latitudes\<close>

text \<open>
  Five latitudes of which the second and the fifth repeat their neighbours within
  \<open>10\<^sup>-\<^sup>1\<^sup>2\<close>; the two doubled rows hold NaN.
\<close>

definition rows_doubled :: "fl list list" where
  "rows_doubled =
     [[Val 0, Val 1, Val 2, Val 3], [NaN, NaN, NaN, NaN], [Val 20, Val 21, Val 22, Val 23],
      [Val 30, Val 31, Val 32, Val 33], [NaN, NaN, NaN, NaN]]"

definition rows_undoubled :: "fl list list" where
  "rows_undoubled =
     [[Val 0, Val 1, Val 2, Val 3], [Val 20, Val 21, Val 22, Val 23],
      [Val 30, Val 31, Val 32, Val 33]]"

definition grid_doubled :: dataset where
  "grid_doubled =
     grid_0_360\<lparr>lat := [- 45, - 45 + 1 / 10 ^ 12, 0, 45, 45 + 1 / 10 ^ 12],
                 var := [Surface rows_doubled, Surface rows_doubled]\<rparr>"

definition grid_undoubled :: dataset where
  "grid_undoubled =
     grid_0_360\<lparr>lat := [- 45, 0, 45],
                 var := [Surface rows_undoubled, Surface rows_undoubled]\<rparr>"

text \<open>The same grid with a single time step.\<close>

definition grid_doubled_one_step :: dataset where
  "grid_doubled_one_step =
     grid_doubled\<lparr>time := [t_std 2014 12 31], var := [Surface rows_doubled]\<rparr>"

text \<open>
  The same latitudes under a variable on two pressure levels, and the grid the
  compensation makes of it: the level indices 0 and 1, each once per latitude
  that is not NaN, taken as latitude positions.
\<close>

definition grid_doubled_levels :: dataset where
  "grid_doubled_levels =
     grid_doubled\<lparr>var := [Levels [rows_doubled, rows_doubled],
                             Levels [rows_doubled, rows_doubled]]\<rparr>"

definition rows_by_level :: "fl list list" where
  "rows_by_level =
     [[Val 0, Val 1, Val 2, Val 3], [Val 0, Val 1, Val 2, Val 3], [Val 0, Val 1, Val 2, Val 3],
      [NaN, NaN, NaN, NaN], [NaN, NaN, NaN, NaN], [NaN, NaN, NaN, NaN]]"

definition grid_levels_result :: dataset where
  "grid_levels_result =
     grid_doubled\<lparr>lat := [- 45, - 45, - 45,
                           - 45 + 1 / 10 ^ 12, - 45 + 1 / 10 ^ 12, - 45 + 1 / 10 ^ 12],
                   var := [Levels [rows_by_level, rows_by_level],
                           Levels [rows_by_level, rows_by_level]]\<rparr>"

text \<open>
  Two grids with doubled latitudes and doubled longitudes (the doubled row and the
  doubled column hold NaN), and the grid the compensation makes of the first.  In
  the second the doubled longitude is the second one, the column of the reference
  slice over the latitudes.
\<close>

definition grid_doubled_both :: dataset where
  "grid_doubled_both =
     grid_0_360\<lparr>lat := [- 45, - 45 + 1 / 10 ^ 12, 45],
                 lon := [0, 90, 90 + 1 / 10 ^ 12, 270],
                 var := [Surface [[Val 0, Val 1, NaN, Val 3], [NaN, NaN, NaN, NaN],
                                  [Val 20, Val 21, NaN, Val 23]],
                         Surface [[Val 0, Val 1, NaN, Val 3], [NaN, NaN, NaN, NaN],
                                  [Val 20, Val 21, NaN, Val 23]]]\<rparr>"

definition grid_undoubled_both :: dataset where
  "grid_undoubled_both =
     grid_0_360\<lparr>lat := [- 45, 45], lon := [0, 90, 270],
                 var := [Surface [[Val 0, Val 1, Val 3], [Val 20, Val 21, Val 23]],
                         Surface [[Val 0, Val 1, Val 3], [Val 20, Val 21, Val 23]]]\<rparr>"

definition grid_doubled_second_lon :: dataset where
  "grid_doubled_second_lon =
     grid_0_360\<lparr>lat := [- 45, - 45 + 1 / 10 ^ 12, 45],
                 lon := [0, 1 / 10 ^ 12, 180, 270],
                 var := [Surface [[Val 0, NaN, Val 2, Val 3], [NaN, NaN, NaN, NaN],
                                  [Val 20, NaN, Val 22, Val 23]],
                         Surface [[Val 0, NaN, Val 2, Val 3], [NaN, NaN, NaN, NaN],
                                  [Val 20, NaN, Val 22, Val 23]]]\<rparr>"

section \<open>The CMIP6 notebook: pressure-level subsetting\<close>

text \<open>\<open>np.allclose(a, b)\<close> with the default tolerances \<open>rtol = 1e-5\<close>, \<open>atol = 1e-8\<close>.\<close>

definition allclose :: "rat \<Rightarrow> rat \<Rightarrow> bool" where
  "allclose a b \<longleftrightarrow> \<bar>a - b\<bar> \<le> 1 / 10 ^ 8 + 1 / 10 ^ 5 * \<bar>b\<bar>"

text \<open>The entry \<open>data_params['other']['plev_subset']\<close>.\<close>

record plev_subset =
  plev :: rat
  outputfn :: string

text \<open>
  How the block ends for one output specification: the cell goes on to
  \<open>to_netcdf\<close> with the grid as it is, or with one level selected and the variable
  renamed, or it prints the available levels and takes \<open>continue\<close>.
\<close>

datatype plev_outcome =
    Save_as_is
  | Save_level nat string
  | Skip_spec "rat list"

text \<open>
  The membership test \<open>'plev_subset' in data_params['other'].keys\<close>.  The right
  operand is the bound method \<open>keys\<close> itself, not its result: a method is no
  container, and \<open>in\<close> raises TypeError whatever the dict holds.  (The test of the
  same key where the file names are built calls \<open>.keys()\<close>.)
\<close>

definition in_keys_method :: "string \<Rightarrow> 'd \<Rightarrow> pyerr + bool" where
  "in_keys_method k d = Inl TypeError"

text \<open>
  The \<open>try\<close> block and its handler.  The level is looked up with
  \<open>np.where([np.allclose(p, target) for p in ds_tmp.plev])[0][0]\<close>, which raises
  IndexError when no level is close; the handler is \<open>except KeyError\<close>.
\<close>

definition plev_try :: "rat list \<Rightarrow> plev_subset option \<Rightarrow> pyerr + plev_outcome" where
  "plev_try plevs entry =
     (case (case entry of
              None \<Rightarrow> Inl KeyError
            | Some ps \<Rightarrow>
                bind_err (item0 (nonzero (map (\<lambda>p. allclose p (plev ps)) plevs))) (\<lambda>i.
                  Inr (Save_level i (outputfn ps)))) of
        Inl KeyError \<Rightarrow> Inr (Skip_spec plevs)
      | Inl e \<Rightarrow> Inl e
      | Inr r \<Rightarrow> Inr r)"

text \<open>
  The block ``If subsetting by pressure level'': \<open>other\<close> is \<open>None\<close> when
  \<open>data_params\<close> has no key \<open>'other'\<close>, and otherwise holds the entry
  \<open>'plev_subset'\<close> of that dict, if there is one.
\<close>

definition plev_step :: "plev_subset option option \<Rightarrow> rat list \<Rightarrow> pyerr + plev_outcome" where
  "plev_step other plevs =
     (case other of
        None \<Rightarrow> Inr Save_as_is
      | Some entry \<Rightarrow>
          bind_err (in_keys_method ''plev_subset'' entry) (\<lambda>present.
            if present then plev_try plevs entry else Inr Save_as_is))"

subsection \<open>Example: a level that the grid does not have\<close>

definition ta500 :: plev_subset where
  "ta500 = \<lparr>plev = 50000, outputfn = ''ta500''\<rparr>"

definition plevs_low :: "rat list" where
  "plevs_low = [100000, 85000]"

section \<open>The ERA5 notebook\<close>

text \<open>
  The settings of the notebook for one entry of \<open>download_vars\<close>.  Years are
  natural numbers; \<open>geo_suffix\<close> is \<open>geographic_vars['fn_suffix']\<close>.
\<close>

record era5_config =
  raw_data_dir :: string
  short_name :: string
  long_name :: string
  geo_suffix :: string
  resamp :: bool
  output_freq_name :: string
  all_years :: "nat list"
  chunk_size :: nat

text \<open>\<open>str(n)\<close> for a year.\<close>

definition digit_char :: "nat \<Rightarrow> char" where
  "digit_char d = ''0123456789'' ! d"

fun str_nat :: "nat \<Rightarrow> string" where
  "str_nat n = (if n < 10 then [digit_char n] else str_nat (n div 10) @ [digit_char (n mod 10)])"

declare str_nat.simps [simp del]

text \<open>\<open>re.sub('hr', rep, s)\<close>: every occurrence of \<open>hr\<close> in the whole path.\<close>

fun sub_hr :: "string \<Rightarrow> string \<Rightarrow> string" where
  "sub_hr rep (a # b # cs) =
     (if a = CHR ''h'' \<and> b = CHR ''r'' then rep @ sub_hr rep cs else a # sub_hr rep (b # cs))"
| "sub_hr rep cs = cs"

text \<open>
  \<open>[all_years[i:i + chunk_size] for i in range(0, len(all_years), chunk_size)]\<close>;
  \<open>range\<close> refuses a step of zero.
\<close>

fun chunk_list :: "nat \<Rightarrow> 'a list \<Rightarrow> 'a list list" where
  "chunk_list n xs =
     (if n = 0 \<or> xs = [] then [] else take n xs # chunk_list n (drop n xs))"

declare chunk_list.simps [simp del]

definition chunks_of :: "era5_config \<Rightarrow> pyerr + nat list list" where
  "chunks_of cfg =
     (if chunk_size cfg = 0 then Inl ValueError
      else Inr (chunk_list (chunk_size cfg) (all_years cfg)))"

subsection \<open>File names\<close>

definition span :: "nat list \<Rightarrow> string" where
  "span ys = str_nat (hd ys) @ ''0101-'' @ str_nat (last ys) @ ''1231''"

text \<open>\<open>fn0\<close>, the name of the hourly file of a chunk.\<close>

definition fn0 :: "era5_config \<Rightarrow> nat list \<Rightarrow> string" where
  "fn0 cfg chunk =
     raw_data_dir cfg @ ''ERA5/'' @ short_name cfg @ ''_hr_ERA5_historical_reanalysis_''
       @ span chunk @ geo_suffix cfg @ ''.nc''"

text \<open>
  The names of the resampled files share all but their dates:
  \<open>stem\<close> is what precedes the dates, \<open>ext\<close> what follows them.
\<close>

definition stem :: "era5_config \<Rightarrow> string" where
  "stem cfg =
     raw_data_dir cfg @ ''ERA5/'' @ short_name cfg @ ''_'' @ output_freq_name cfg
       @ ''_ERA5_historical_reanalysis_''"

definition ext :: "era5_config \<Rightarrow> string" where
  "ext cfg = geo_suffix cfg @ ''.nc''"

text \<open>The name under which the cleanup loop looks for the file of a chunk.\<close>

definition chunk_file :: "era5_config \<Rightarrow> nat list \<Rightarrow> string" where
  "chunk_file cfg chunk = stem cfg @ span chunk @ ext cfg"

definition fn_final :: "era5_config \<Rightarrow> string" where
  "fn_final cfg =
     (if resamp cfg then stem cfg
      else raw_data_dir cfg @ ''ERA5/'' @ short_name cfg @ ''_hr_ERA5_historical_reanalysis_'')
       @ span (all_years cfg) @ ext cfg"

subsection \<open>The disk and the interpreter state\<close>

text \<open>
  A file holds a time axis; the model keeps the years it covers.  The disk is a
  list of files with their contents, each path at most once.
\<close>

type_synonym disk = "(string \<times> nat list) list"

definition path_exists :: "disk \<Rightarrow> string \<Rightarrow> bool" where
  "path_exists d p \<longleftrightarrow> p \<in> fst ` set d"

definition write_file :: "string \<Rightarrow> nat list \<Rightarrow> disk \<Rightarrow> disk" where
  "write_file p c d = (p, c) # filter (\<lambda>f. fst f \<noteq> p) d"

definition delete_file :: "string \<Rightarrow> disk \<Rightarrow> disk" where
  "delete_file p d = filter (\<lambda>f. fst f \<noteq> p) d"

text \<open>
  The state the cell works on: the disk, the binding of the variable \<open>fn1\<close>
  (\<open>None\<close> while the name is unbound, as in a fresh interpreter), the printed
  lines and the requests sent to the remote API.
\<close>

record era5_state =
  files :: disk
  fn1 :: "string option"
  printed :: "string list"
  retrieved :: "nat list list"

text \<open>
  A step returns the state it leaves and the exception it raised, if any.  After an
  exception nothing more is run.
\<close>

type_synonym result = "pyerr option \<times> era5_state"

definition and_then :: "result \<Rightarrow> (era5_state \<Rightarrow> result) \<Rightarrow> result" where
  "and_then r f = (case r of (None, st) \<Rightarrow> f st | (Some e, st) \<Rightarrow> (Some e, st))"

subsection \<open>The loop over the chunks\<close>

text \<open>
  One pass of the loop body.  The request is taken to succeed: \<open>c.retrieve\<close> writes
  the hourly file \<open>fn0\<close>.  With resampling the daily (or other) means are written
  under \<open>fn1\<close> and \<open>fn0\<close> is removed; without, \<open>fn0\<close> is removed and written anew.
  The existence test is made on the name with \<open>day\<close> in place of \<open>hr\<close>.
\<close>

definition process_chunk :: "era5_config \<Rightarrow> nat list \<Rightarrow> era5_state \<Rightarrow> result" where
  "process_chunk cfg chunk st =
     (let f0 = fn0 cfg chunk in
      if \<not> path_exists (files st) (sub_hr ''day'' f0) then
        (let st1 = st\<lparr>files := write_file f0 chunk (files st),
                       retrieved := retrieved st @ [chunk]\<rparr>;
             f1 = (if resamp cfg then sub_hr (output_freq_name cfg) f0 else f0);
             d2 = (if resamp cfg
                   then delete_file f0 (write_file f1 chunk (files st1))
                   else write_file f1 chunk (delete_file f0 (files st1)))
         in (None, st1\<lparr>files := d2, fn1 := Some f1,
                        printed := printed st1 @ [f1 @ '' processed!'']\<rparr>))
      else
        (case fn1 st of
           None \<Rightarrow> (Some NameError, st)
         | Some f1 \<Rightarrow> (None, st\<lparr>printed := printed st @ [f1 @ '' already exists; skipped.'']\<rparr>)))"

fun process_chunks :: "era5_config \<Rightarrow> nat list list \<Rightarrow> era5_state \<Rightarrow> result" where
  "process_chunks cfg [] st = (None, st)"
| "process_chunks cfg (chunk # rest) st =
     and_then (process_chunk cfg chunk st) (process_chunks cfg rest)"

subsection \<open>Concatenation and cleanup\<close>

text \<open>
  The wildcard of \<open>open_mfdataset\<close>: \<open>stem\<close>, then \<open>*\<close>, then \<open>ext\<close>.
  \<open>*\<close> matches any run of characters without a slash.
\<close>

definition glob_match :: "string \<Rightarrow> string \<Rightarrow> string \<Rightarrow> bool" where
  "glob_match pre suf p \<longleftrightarrow>
     length pre + length suf \<le> length p
     \<and> take (length pre) p = pre
     \<and> drop (length p - length suf) p = suf
     \<and> CHR ''/'' \<notin> set (take (length p - length pre - length suf) (drop (length pre) p))"

definition matching :: "era5_config \<Rightarrow> disk \<Rightarrow> disk" where
  "matching cfg d = filter (\<lambda>f. glob_match (stem cfg) (ext cfg) (fst f)) d"

text \<open>
  \<open>xr.open_mfdataset(pattern, combine='by_coords')\<close> followed by
  \<open>ds.to_netcdf(fn_final)\<close>.  Without a matching file the open raises OSError; time
  axes that overlap cannot be combined (ValueError); otherwise the files are
  ordered by their time coordinates and joined, whichever files they are.
\<close>

definition concat_write :: "era5_config \<Rightarrow> era5_state \<Rightarrow> result" where
  "concat_write cfg st =
     (let ms = matching cfg (files st); years = concat (map snd ms)
      in if ms = [] then (Some OSError, st)
         else if \<not> distinct years then (Some ValueError, st)
         else (None, st\<lparr>files := write_file (fn_final cfg) (sort years) (files st)\<rparr>))"

text \<open>The cleanup loop: \<open>os.remove\<close> of the file of every chunk.\<close>

fun remove_chunks :: "era5_config \<Rightarrow> nat list list \<Rightarrow> era5_state \<Rightarrow> result" where
  "remove_chunks cfg [] st = (None, st)"
| "remove_chunks cfg (chunk # rest) st =
     (if path_exists (files st) (chunk_file cfg chunk)
      then remove_chunks cfg rest (st\<lparr>files := delete_file (chunk_file cfg chunk) (files st)\<rparr>)
      else (Some FileNotFoundError, st))"

definition concat_and_cleanup :: "era5_config \<Rightarrow> nat list list \<Rightarrow> era5_state \<Rightarrow> result" where
  "concat_and_cleanup cfg chunks st =
     and_then (concat_write cfg st) (remove_chunks cfg chunks)"

text \<open>The body of the loop over \<open>download_vars\<close>, for one variable.\<close>

definition download_var :: "era5_config \<Rightarrow> era5_state \<Rightarrow> result" where
  "download_var cfg st =
     (if all_years cfg = [] then (Some IndexError, st)
      else if \<not> path_exists (files st) (fn_final cfg) then
        (case chunks_of cfg of
           Inl e \<Rightarrow> (Some e, st)
         | Inr chunks \<Rightarrow>
             and_then (process_chunks cfg chunks st) (concat_and_cleanup cfg chunks))
      else (None, st\<lparr>printed := printed st @ [fn_final cfg @ '' already exists, skipped.'']\<rparr>))"

subsection \<open>Example: ten years in two chunks\<close>

definition cfg_vwt :: era5_config where
  "cfg_vwt =
     \<lparr>raw_data_dir = ''raw/'', short_name = ''vwt'',
      long_name = ''vertical_integral_of_northward_water_vapour_flux'',
      geo_suffix = ''_WIndOcean'', resamp = True, output_freq_name = ''day'',
      all_years = [1979, 1980, 1981, 1982, 1983, 1984, 1985, 1986, 1987, 1988],
      chunk_size = 5\<rparr>"

definition chunk_a :: "nat list" where
  "chunk_a = [1979, 1980, 1981, 1982, 1983]"

definition chunk_b :: "nat list" where
  "chunk_b = [1984, 1985, 1986, 1987, 1988]"

definition fresh :: "disk \<Rightarrow> era5_state" where
  "fresh d = \<lparr>files = d, fn1 = None, printed = [], retrieved = []\<rparr>"

text \<open>Disks left by an interrupted run: only the first, or only the second, chunk.\<close>

definition disk_first_only :: disk where
  "disk_first_only = [(chunk_file cfg_vwt chunk_a, chunk_a)]"

definition disk_second_only :: disk where
  "disk_second_only = [(chunk_file cfg_vwt chunk_b, chunk_b)]"

section \<open>Properties of \<open>fix_lons\<close>\<close>

lemma fmod_360_id: "0 \<le> v \<Longrightarrow> v < 360 \<Longrightarrow> fmod v 360 = v"
proof -
  assume a: "0 \<le> v" "v < 360"
  have "\<lfloor>v / 360\<rfloor> = 0"
    using a by (simp add: floor_eq_iff)
  then show ?thesis by (simp add: fmod_def)
qed

lemma nonzero_Cons:
  "nonzero (b # bs) = (if b then [0] else []) @ map Suc (nonzero bs)"
proof -
  have "[0..<Suc (length bs)] = 0 # map Suc [0..<length bs]"
    by (simp add: upt_conv_Cons map_Suc_upt del: upt_Suc)
  then show ?thesis
    by (simp add: nonzero_def filter_map comp_def del: upt_Suc)
qed

lemma nonzero_Nil: "nonzero [] = []"
  by (simp add: nonzero_def)

lemma item0_nonzero_Inr:
  "item0 (nonzero bs) = Inr k \<longleftrightarrow> k < length bs \<and> bs ! k \<and> (\<forall>j<k. \<not> bs ! j)"
proof (induction bs arbitrary: k)
  case Nil
  show ?case by (simp add: nonzero_Nil item0_def)
next
  case (Cons b bs)
  show ?case
  proof (cases b)
    case True
    then show ?thesis
      by (cases k) (auto simp: nonzero_Cons item0_def)
  next
    case False
    have "item0 (map Suc (nonzero bs)) = Inr k \<longleftrightarrow> (\<exists>k'. k = Suc k' \<and> item0 (nonzero bs) = Inr k')"
      by (cases "nonzero bs") (auto simp: item0_def)
    with False Cons show ?thesis
      apply (simp add: nonzero_Cons)
      apply (cases k)
       apply (auto simp: nth_Cons' less_Suc_eq_0_disj)
      done
  qed
qed

lemma item0_nonzero_Inl:
  "item0 (nonzero bs) = Inl e \<longleftrightarrow> e = IndexError \<and> (\<forall>b \<in> set bs. \<not> b)"
proof (induction bs)
  case Nil
  show ?case by (auto simp: nonzero_Nil item0_def)
next
  case (Cons b bs)
  have "item0 (map Suc (nonzero bs)) = Inl e \<longleftrightarrow> item0 (nonzero bs) = Inl e"
    by (cases "nonzero bs") (auto simp: item0_def)
  with Cons show ?case
    by (cases b) (auto simp: nonzero_Cons item0_def)
qed

lemma item0_nonzero_ex:
  "(\<exists>k. item0 (nonzero bs) = Inr k) \<longleftrightarrow> (\<exists>b \<in> set bs. b)"
proof (cases "item0 (nonzero bs)")
  case (Inl e)
  then show ?thesis using item0_nonzero_Inl [of bs e] by auto
next
  case (Inr k)
  then have "k < length bs \<and> bs ! k" using item0_nonzero_Inr [of bs k] by simp
  then have "\<exists>b \<in> set bs. b" using nth_mem by blast
  with Inr show ?thesis by simp
qed

lemma np_floordiv_1_pos:
  "0 < d \<Longrightarrow> np_floordiv v d = Some 1 \<longleftrightarrow> d \<le> v \<and> v < 2 * d"
  by (auto simp: np_floordiv_def floor_eq_iff pos_le_divide_eq pos_divide_less_eq)

lemma np_floordiv_1_nonpos:
  "d \<le> 0 \<Longrightarrow> 0 \<le> v \<Longrightarrow> np_floordiv v d \<noteq> Some 1"
  by (auto simp: np_floordiv_def floor_eq_iff neg_le_divide_eq)

lemma fix_lons_360_Inr_iff:
  assumes "lon_range sp = 360"
  shows "(\<exists>ds'. fix_lons ds sp = Inr ds') \<longleftrightarrow>
         (\<exists>v \<in> set (lon ds). np_floordiv (fmod v 360) (lon_origin sp) = Some 1)"
proof -
  let ?bs = "map (\<lambda>v. np_floordiv v (lon_origin sp) = Some 1) (map (\<lambda>v. fmod v 360) (lon ds))"
  have "(\<exists>ds'. fix_lons ds sp = Inr ds') \<longleftrightarrow> (\<exists>k. item0 (nonzero ?bs) = Inr k)"
    using assms by (auto simp: fix_lons_def assign_lon_def Let_def split: sum.splits)
  also have "\<dots> \<longleftrightarrow> (\<exists>b \<in> set ?bs. b)"
    by (rule item0_nonzero_ex)
  also have "\<dots> \<longleftrightarrow> (\<exists>v \<in> set (lon ds). np_floordiv (fmod v 360) (lon_origin sp) = Some 1)"
    by auto
  finally show ?thesis .
qed

lemma fix_lons_360_Inl:
  assumes "lon_range sp = 360" "fix_lons ds sp = Inl e"
  shows "e = IndexError"
  using assms item0_nonzero_Inl
  by (auto simp: fix_lons_def assign_lon_def Let_def split: sum.splits)

text \<open>
  Claim C10.  On a grid whose longitudes lie in \<open>[0, 360)\<close> the 360 branch of
  \<open>fix_lons\<close> returns a grid exactly when \<open>lon_origin\<close> is strictly positive and
  some longitude \<open>v\<close> has \<open>lon_origin \<le> v < 2 * lon_origin\<close>, which is
  \<open>v // lon_origin == 1\<close>.  With \<open>lon_origin = 0\<close> the floor division divides by
  zero and matches nothing; with a negative \<open>lon_origin\<close>, or one above every
  longitude, the match set is empty as well; in all three cases the first-index
  lookup raises IndexError and no grid is returned.
\<close>

theorem fix_lons_360_precondition:
  assumes r: "lon_range sp = 360"
    and g: "\<forall>v \<in> set (lon ds). 0 \<le> v \<and> v < 360"
  shows "((\<exists>ds'. fix_lons ds sp = Inr ds') \<longleftrightarrow>
            0 < lon_origin sp \<and>
            (\<exists>v \<in> set (lon ds). lon_origin sp \<le> v \<and> v < 2 * lon_origin sp \<and>
                                 np_floordiv v (lon_origin sp) = Some 1))
       \<and> (lon_origin sp = 0 \<longrightarrow> (\<forall>v. np_floordiv v (lon_origin sp) = None)
                                  \<and> fix_lons ds sp = Inl IndexError)
       \<and> (lon_origin sp < 0 \<longrightarrow> fix_lons ds sp = Inl IndexError)
       \<and> ((\<forall>v \<in> set (lon ds). v < lon_origin sp) \<longrightarrow> fix_lons ds sp = Inl IndexError)"
proof -
  have id: "fmod v 360 = v" if "v \<in> set (lon ds)" for v
    using g that by (simp add: fmod_360_id)
  have iff: "(\<exists>ds'. fix_lons ds sp = Inr ds') \<longleftrightarrow>
             (\<exists>v \<in> set (lon ds). np_floordiv v (lon_origin sp) = Some 1)"
    using fix_lons_360_Inr_iff [OF r, of ds] id by auto
  have fail: "fix_lons ds sp = Inl IndexError" if "\<not> (\<exists>ds'. fix_lons ds sp = Inr ds')"
    using that fix_lons_360_Inl [OF r] by (cases "fix_lons ds sp") auto
  have nonpos: "\<not> (\<exists>ds'. fix_lons ds sp = Inr ds')" if "lon_origin sp \<le> 0"
    using iff that g np_floordiv_1_nonpos by blast
  have c1: "(\<exists>ds'. fix_lons ds sp = Inr ds') \<longleftrightarrow>
            0 < lon_origin sp \<and>
            (\<exists>v \<in> set (lon ds). lon_origin sp \<le> v \<and> v < 2 * lon_origin sp \<and>
                                 np_floordiv v (lon_origin sp) = Some 1)"
  proof (cases "0 < lon_origin sp")
    case True
    then show ?thesis using iff np_floordiv_1_pos by auto
  next
    case False
    then show ?thesis using nonpos by auto
  qed
  have c2: "lon_origin sp = 0 \<longrightarrow> (\<forall>v. np_floordiv v (lon_origin sp) = None)
                                  \<and> fix_lons ds sp = Inl IndexError"
    using nonpos fail by (auto simp: np_floordiv_def)
  have c3: "lon_origin sp < 0 \<longrightarrow> fix_lons ds sp = Inl IndexError"
    using nonpos fail by auto
  have c4: "(\<forall>v \<in> set (lon ds). v < lon_origin sp) \<longrightarrow> fix_lons ds sp = Inl IndexError"
  proof
    assume "\<forall>v \<in> set (lon ds). v < lon_origin sp"
    then have "\<not> (\<exists>ds'. fix_lons ds sp = Inr ds')"
      using c1 by fastforce
    then show "fix_lons ds sp = Inl IndexError" by (rule fail)
  qed
  from c1 c2 c3 c4 show ?thesis by blast
qed

theorem fix_lons_360_precondition_witness:
  "(\<exists>ds'. fix_lons grid_0_360 sp_360 = Inr ds')
   \<and> fix_lons grid_0_360 (sp_360\<lparr>lon_origin := 0\<rparr>) = Inl IndexError
   \<and> fix_lons grid_0_360 (sp_360\<lparr>lon_origin := - 180\<rparr>) = Inl IndexError
   \<and> fix_lons grid_0_360 (sp_360\<lparr>lon_origin := 300\<rparr>) = Inl IndexError"
proof -
  have g: "\<forall>v \<in> set (lon grid_0_360). 0 \<le> v \<and> v < 360"
    by (simp add: grid_0_360_def)
  have r: "lon_range (sp_360\<lparr>lon_origin := d\<rparr>) = 360" for d
    by (simp add: sp_360_def)
  have "0 < lon_origin sp_360 \<and>
        (\<exists>v \<in> set (lon grid_0_360). lon_origin sp_360 \<le> v \<and> v < 2 * lon_origin sp_360
            \<and> np_floordiv v (lon_origin sp_360) = Some 1)"
    by (simp add: grid_0_360_def sp_360_def np_floordiv_1_pos)
  then have a: "\<exists>ds'. fix_lons grid_0_360 sp_360 = Inr ds'"
    using fix_lons_360_precondition [OF r [of 60] g] by (simp add: sp_360_def)
  have b: "fix_lons grid_0_360 (sp_360\<lparr>lon_origin := 0\<rparr>) = Inl IndexError"
    using fix_lons_360_precondition [OF r [of 0] g] by simp
  have c: "fix_lons grid_0_360 (sp_360\<lparr>lon_origin := - 180\<rparr>) = Inl IndexError"
    using fix_lons_360_precondition [OF r [of "- 180"] g] by simp
  have d: "fix_lons grid_0_360 (sp_360\<lparr>lon_origin := 300\<rparr>) = Inl IndexError"
    using fix_lons_360_precondition [OF r [of 300] g] by (simp add: grid_0_360_def)
  from a b c d show ?thesis by blast
qed

lemma roll_0: "roll 0 xs = xs"
  by (simp add: roll_def)

lemma roll_neg: "k < length xs \<Longrightarrow> roll (- int k) xs = rotate k xs"
  by (auto simp: roll_def)

lemma roll_pos: "h \<le> length xs \<Longrightarrow> roll (int h) xs = rotate (length xs - h) xs"
proof (cases "h = 0 \<or> xs = []")
  case True
  then show ?thesis by (auto simp: roll_def)
next
  case False
  assume h: "h \<le> length xs"
  with False have "(- int h) mod int (length xs) = int (length xs) - int h"
    by (cases "h = length xs") (auto simp: zmod_zminus1_eq_if)
  with False h show ?thesis by (simp add: roll_def nat_diff_distrib')
qed

lemma set_roll: "set (roll k xs) = set xs"
  by (simp add: roll_def)

lemma length_roll: "length (roll k xs) = length xs"
  by (simp add: roll_def)

lemma map_field_id: "(\<And>rows. f rows = rows) \<Longrightarrow> map_field f s = s"
  by (cases s) (simp_all add: map_idI)

lemma roll_lon_0: "roll_lon 0 ds = ds"
proof -
  have "map (map_field (map (roll 0))) (var ds) = var ds"
    by (intro map_idI map_field_id) (simp add: roll_0)
  then show ?thesis by (simp add: roll_lon_def roll_0)
qed

lemma fmod_360_range: "0 \<le> fmod v 360 \<and> fmod v 360 < 360"
proof -
  have "of_int \<lfloor>v / 360\<rfloor> \<le> v / 360" "v / 360 < of_int \<lfloor>v / 360\<rfloor> + 1"
    by linarith+
  then show ?thesis by (simp add: fmod_def field_simps)
qed

lemma rotate_cut: "m \<le> length ys \<Longrightarrow> rotate m ys = drop m ys @ take m ys"
  by (cases "m = length ys") (auto simp: rotate_drop_take)

lemma fix_lons_360_char:
  assumes r: "lon_range sp = 360"
  shows "fix_lons ds sp = Inr ds' \<longleftrightarrow>
           (\<exists>k < length (lon ds).
               np_floordiv (fmod (lon ds ! k) 360) (lon_origin sp) = Some 1
             \<and> (\<forall>j < k. np_floordiv (fmod (lon ds ! j) 360) (lon_origin sp) \<noteq> Some 1)
             \<and> ds' = roll_lon (- int k) (assign_lon (\<lambda>v. fmod v 360) ds))"
    (is "?L \<longleftrightarrow> ?R")
proof -
  define ds1 where "ds1 = assign_lon (\<lambda>v. fmod v 360) ds"
  define bs where "bs = map (\<lambda>v. np_floordiv v (lon_origin sp) = Some 1) (lon ds1)"
  have len: "length bs = length (lon ds)"
    by (simp add: bs_def ds1_def assign_lon_def)
  have nth: "bs ! i \<longleftrightarrow> np_floordiv (fmod (lon ds ! i) 360) (lon_origin sp) = Some 1"
    if "i < length (lon ds)" for i
    using that by (simp add: bs_def ds1_def assign_lon_def)
  have f: "fix_lons ds sp = (case item0 (nonzero bs) of Inl e \<Rightarrow> Inl e
                              | Inr k \<Rightarrow> Inr (roll_lon (- int k) ds1))"
    unfolding bs_def ds1_def using r by (simp add: fix_lons_def Let_def)
  have first: "item0 (nonzero bs) = Inr k \<longleftrightarrow>
          k < length (lon ds)
          \<and> np_floordiv (fmod (lon ds ! k) 360) (lon_origin sp) = Some 1
          \<and> (\<forall>j < k. np_floordiv (fmod (lon ds ! j) 360) (lon_origin sp) \<noteq> Some 1)" for k
  proof (cases "k < length (lon ds)")
    case True
    then have "\<forall>j < k. (bs ! j \<longleftrightarrow>
        np_floordiv (fmod (lon ds ! j) 360) (lon_origin sp) = Some 1)"
      using nth by simp
    with True show ?thesis
      unfolding item0_nonzero_Inr len using nth [OF True] by simp
  next
    case False
    then show ?thesis unfolding item0_nonzero_Inr len by simp
  qed
  show ?thesis
  proof
    assume ?L
    then obtain k where "item0 (nonzero bs) = Inr k" "ds' = roll_lon (- int k) ds1"
      unfolding f by (cases "item0 (nonzero bs)") auto
    then show ?R
      unfolding first ds1_def by blast
  next
    assume ?R
    then obtain k where "k < length (lon ds)
          \<and> np_floordiv (fmod (lon ds ! k) 360) (lon_origin sp) = Some 1
          \<and> (\<forall>j < k. np_floordiv (fmod (lon ds ! j) 360) (lon_origin sp) \<noteq> Some 1)"
        and "ds' = roll_lon (- int k) ds1"
      unfolding ds1_def by blast
    then have "item0 (nonzero bs) = Inr k" "ds' = roll_lon (- int k) ds1"
      by (simp_all add: first)
    then show ?L
      unfolding f by simp
  qed
qed

lemma fix_lons_360_lon:
  assumes "k < length (lon ds)"
  shows "lon (roll_lon (- int k) (assign_lon (\<lambda>v. fmod v 360) ds))
         = drop k (map (\<lambda>v. fmod v 360) (lon ds)) @ take k (map (\<lambda>v. fmod v 360) (lon ds))"
  using assms by (simp add: roll_lon_def assign_lon_def roll_neg rotate_cut)

lemma fix_lons_360_again:
  assumes r: "lon_range sp = 360" and f: "fix_lons ds sp = Inr ds'"
    and g: "\<forall>v \<in> set (lon ds'). 0 \<le> v \<and> v < 360"
  shows "fix_lons ds' sp = Inr ds'"
proof -
  let ?ys = "map (\<lambda>v. fmod v 360) (lon ds)"
  from f obtain k where kl: "k < length (lon ds)"
    and Pk: "np_floordiv (fmod (lon ds ! k) 360) (lon_origin sp) = Some 1"
    and ds': "ds' = roll_lon (- int k) (assign_lon (\<lambda>v. fmod v 360) ds)"
    unfolding fix_lons_360_char [OF r] by blast
  have lon': "lon ds' = drop k ?ys @ take k ?ys"
    unfolding ds' using kl by (rule fix_lons_360_lon)
  have ne: "lon ds' \<noteq> []" using kl by (simp add: lon')
  have h: "lon ds' ! 0 = fmod (lon ds ! k) 360"
    using kl by (simp add: lon' nth_append)
  have id: "fmod v 360 = v" if "v \<in> set (lon ds')" for v
    using g that by (simp add: fmod_360_id)
  have "lon ds' ! 0 \<in> set (lon ds')" using ne by simp
  then have h': "fmod (lon ds' ! 0) 360 = fmod (lon ds ! k) 360"
    using id h by simp
  have same: "assign_lon (\<lambda>v. fmod v 360) ds' = ds'"
    using id by (simp add: assign_lon_def map_idI)
  have "fix_lons ds' sp = Inr (roll_lon (- int 0) (assign_lon (\<lambda>v. fmod v 360) ds'))"
    unfolding fix_lons_360_char [OF r] using ne Pk h' by (intro exI [of _ 0]) simp
  then show ?thesis by (simp add: same roll_lon_0)
qed

lemma fmod_180_range: "- 180 \<le> fmod (v + 180) 360 - 180 \<and> fmod (v + 180) 360 - 180 < 180"
  using fmod_360_range [of "v + 180"] by simp

lemma fix_lons_180_char:
  assumes r: "lon_range sp = 180"
  shows "fix_lons ds sp =
           (if remapped sp (lon ds) = [] then Inl IndexError
            else Inr (let ds1 = (if \<exists>v \<in> set (lon ds). 180 < v
                                 then assign_lon (\<lambda>v. fmod (v + 180) 360 - 180) ds else ds)
                      in if - 175 < hd (remapped sp (lon ds))
                         then roll_lon (int (length (lon ds1)) div 2) ds1 else ds1))"
proof -
  define ds1 where "ds1 = (if \<exists>v \<in> set (lon ds). 180 < v
              then assign_lon (\<lambda>v. fmod (v + 180) 360 - 180) ds else ds)"
  have l1: "lon ds1 = remapped sp (lon ds)"
    using r by (simp add: ds1_def remapped_def assign_lon_def)
  have "fix_lons ds sp = (case item0 (lon ds1) of Inl e \<Rightarrow> Inl e
      | Inr v0 \<Rightarrow> if - 175 < v0 then Inr (roll_lon (int (length (lon ds1)) div 2) ds1)
                  else Inr ds1)"
    unfolding fix_lons_def ds1_def [symmetric] Let_def using r by simp
  also have "\<dots> = (if lon ds1 = [] then Inl IndexError
            else Inr (if - 175 < hd (lon ds1)
                      then roll_lon (int (length (lon ds1)) div 2) ds1 else ds1))"
    by (cases "lon ds1") (simp_all add: item0_def)
  finally show ?thesis
    unfolding l1 [symmetric] ds1_def [symmetric] Let_def by (simp add: l1)
qed

lemma fix_lons_180_lon:
  assumes r: "lon_range sp = 180" and f: "fix_lons ds sp = Inr ds'"
  shows "remapped sp (lon ds) \<noteq> []
       \<and> lon ds' = (if - 175 < hd (remapped sp (lon ds))
                    then drop (length (remapped sp (lon ds)) - length (remapped sp (lon ds)) div 2)
                           (remapped sp (lon ds))
                         @ take (length (remapped sp (lon ds)) - length (remapped sp (lon ds)) div 2)
                             (remapped sp (lon ds))
                    else remapped sp (lon ds))"
proof -
  define ds1 where "ds1 = (if \<exists>v \<in> set (lon ds). 180 < v
              then assign_lon (\<lambda>v. fmod (v + 180) 360 - 180) ds else ds)"
  define ys where "ys = remapped sp (lon ds)"
  have l1: "lon ds1 = ys"
    using r by (simp add: ds1_def ys_def remapped_def assign_lon_def)
  from f have ne: "ys \<noteq> []"
    and ds': "ds' = (if - 175 < hd ys then roll_lon (int (length ys) div 2) ds1 else ds1)"
    unfolding fix_lons_180_char [OF r] ds1_def [symmetric] ys_def [symmetric] Let_def l1
    by (auto split: if_splits)
  have nd: "int (length ys) div 2 = int (length ys div 2)" by simp
  have "lon (roll_lon (int (length ys) div 2) ds1)
        = drop (length ys - length ys div 2) ys @ take (length ys - length ys div 2) ys"
    unfolding nd by (simp add: roll_lon_def l1 roll_pos rotate_cut)
  with ne ds' l1 show ?thesis
    unfolding ys_def [symmetric] by simp
qed

lemma set_cut: "set (drop m ys @ take m ys) = set ys"
proof -
  have "set (take m ys) \<union> set (drop m ys) = set ys"
    by (simp only: set_append [symmetric] append_take_drop_id)
  then show ?thesis by (simp add: Un_commute)
qed

lemma fix_lons_180_set:
  assumes r: "lon_range sp = 180" and f: "fix_lons ds sp = Inr ds'"
  shows "lon ds' \<noteq> [] \<and> set (lon ds') = set (remapped sp (lon ds))"
proof -
  define ys where "ys = remapped sp (lon ds)"
  define m where "m = length ys - length ys div 2"
  from fix_lons_180_lon [OF r f]
  have ne: "ys \<noteq> []" and l: "lon ds' = (if - 175 < hd ys then drop m ys @ take m ys else ys)"
    by (simp_all add: ys_def m_def)
  have s: "set (lon ds') = set ys"
    unfolding l by (simp add: set_cut del: set_append)
  from ne have "set ys \<noteq> {}" by simp
  with s have "lon ds' \<noteq> []" by auto
  with s show ?thesis by (simp add: ys_def)
qed

lemma remapped_180_le:
  assumes r: "lon_range sp = 180"
  shows "\<forall>v \<in> set (remapped sp xs). \<not> 180 < v"
proof (cases "\<exists>v \<in> set xs. 180 < v")
  case True
  then have "remapped sp xs = map (\<lambda>v. fmod (v + 180) 360 - 180) xs"
    using r by (simp add: remapped_def)
  then show ?thesis using fmod_180_range by (auto simp: not_less intro: less_imp_le)
next
  case False
  then show ?thesis using r by (simp add: remapped_def)
qed

text \<open>
  Claim C2, as amended.  A second application of \<open>fix_lons\<close> with the same
  parameters returns the once-normalised grid unchanged
  \<^item> for the 360 convention, when the longitudes of the once-normalised grid lie in
    \<open>[0, 360)\<close>, where the modulus returns its argument;
  \<^item> for the 180 convention, when the first longitude of the once-normalised grid is
    at most \<open>-175\<close>.

  For the 180 convention with a first longitude above \<open>-175\<close> the second
  application rotates the grid by half the axis once more.  In exact arithmetic
  the condition of the 360 convention holds for every once-normalised grid; it is
  stated because the float64 modulus can return \<open>360.0\<close>, which a second
  application maps to \<open>0.0\<close>.
\<close>

theorem fix_lons_twice:
  assumes f: "fix_lons ds sp = Inr ds'"
  shows "(lon_range sp = 360 \<and> (\<forall>v \<in> set (lon ds'). 0 \<le> v \<and> v < 360)
            \<longrightarrow> fix_lons ds' sp = Inr ds')
       \<and> (lon_range sp = 180 \<and> hd (lon ds') \<le> - 175 \<longrightarrow> fix_lons ds' sp = Inr ds')
       \<and> (lon_range sp = 180 \<and> - 175 < hd (lon ds') \<longrightarrow>
            fix_lons ds' sp = Inr (roll_lon (int (length (lon ds')) div 2) ds'))"
proof -
  have a: "fix_lons ds' sp = Inr ds'"
    if "lon_range sp = 360" "\<forall>v \<in> set (lon ds'). 0 \<le> v \<and> v < 360"
    using that(1) f that(2) by (rule fix_lons_360_again)
  have b: "fix_lons ds' sp =
             (if - 175 < hd (lon ds') then Inr (roll_lon (int (length (lon ds')) div 2) ds')
              else Inr ds')" if r: "lon_range sp = 180"
  proof -
    from fix_lons_180_set [OF r f] remapped_180_le [OF r, of "lon ds"]
    have ne: "lon ds' \<noteq> []" and n: "\<not> (\<exists>v \<in> set (lon ds'). 180 < v)"
      by auto
    from n have rm: "remapped sp (lon ds') = lon ds'"
      using r by (simp add: remapped_def)
    show ?thesis
      unfolding fix_lons_180_char [OF r] rm using ne n by (simp add: Let_def)
  qed
  from a b show ?thesis by auto
qed

theorem fix_lons_twice_witness:
  "fix_lons grid_0_360 sp_180 = Inr grid_0_360_as_180
   \<and> fix_lons grid_0_360_as_180 sp_180 = Inr grid_0_360_as_180
   \<and> fix_lons grid_from_west sp_360_from_10 = Inr grid_from_10
   \<and> fix_lons grid_from_10 sp_360_from_10 = Inr grid_from_10"
proof -
  have a: "fix_lons grid_0_360 sp_180 = Inr grid_0_360_as_180"
    by code_simp
  have b: "fix_lons grid_from_west sp_360_from_10 = Inr grid_from_10"
    by code_simp
  have "hd (lon grid_0_360_as_180) \<le> - 175"
    by (simp add: grid_0_360_as_180_def)
  then have c: "fix_lons grid_0_360_as_180 sp_180 = Inr grid_0_360_as_180"
    using fix_lons_twice [OF a] by (simp add: sp_180_def)
  have "\<forall>v \<in> set (lon grid_from_10). 0 \<le> v \<and> v < 360"
    by (simp add: grid_from_10_def)
  then have d: "fix_lons grid_from_10 sp_360_from_10 = Inr grid_from_10"
    using fix_lons_twice [OF b] by (simp add: sp_360_from_10_def sp_360_def sp_180_def)
  from a b c d show ?thesis by blast
qed

theorem fix_lons_twice_counterexample:
  "fix_lons grid_regional sp_180 = Inr grid_regional_rolled
   \<and> fix_lons grid_regional_rolled sp_180 = Inr grid_regional
   \<and> grid_regional_rolled \<noteq> grid_regional"
  by code_simp

subsection \<open>Monotone output and range selection\<close>

lemma takeWhile_le_sorted:
  "sorted xs \<Longrightarrow> takeWhile (\<lambda>v. v \<le> b) xs = filter (\<lambda>v. v \<le> (b::rat)) xs"
proof (induction xs)
  case Nil
  show ?case by simp
next
  case (Cons x xs)
  show ?case
  proof (cases "x \<le> b")
    case True
    with Cons show ?thesis by simp
  next
    case False
    with Cons.prems have "\<forall>y \<in> set xs. \<not> y \<le> b" by auto
    with False show ?thesis by simp
  qed
qed

lemma sel_slice_sorted:
  "sorted xs \<Longrightarrow> sel_slice a b xs = filter (\<lambda>v. a \<le> v \<and> v \<le> b) xs"
proof (induction xs)
  case Nil
  show ?case by (simp add: sel_slice_def slice_bounds_def)
next
  case (Cons x xs)
  then have IH: "sel_slice a b xs = filter (\<lambda>v. a \<le> v \<and> v \<le> b) xs"
    and le: "\<forall>y \<in> set xs. x \<le> y" and s: "sorted xs"
    by auto
  show ?case
  proof (cases "x < a")
    case xa: True
    show ?thesis
    proof (cases "x \<le> b")
      case True
      with xa IH show ?thesis
        by (simp add: sel_slice_def slice_bounds_def)
    next
      case False
      with le have "\<forall>y \<in> set xs. \<not> y \<le> b" by auto
      with False xa show ?thesis
        by (simp add: sel_slice_def slice_bounds_def)
    qed
  next
    case False
    with le have all: "\<forall>y \<in> set (x # xs). a \<le> y" by auto
    then have "filter (\<lambda>v. a \<le> v \<and> v \<le> b) (x # xs) = filter (\<lambda>v. v \<le> b) (x # xs)"
      by (intro filter_cong) auto
    also have "\<dots> = takeWhile (\<lambda>v. v \<le> b) (x # xs)"
      using Cons.prems by (rule takeWhile_le_sorted [symmetric])
    also have "\<dots> = sel_slice a b (x # xs)"
      using False by (simp add: sel_slice_def slice_bounds_def takeWhile_eq_take [symmetric])
    finally show ?thesis by simp
  qed
qed

lemma sel_slice_nonempty:
  "sorted xs \<Longrightarrow> sel_slice a b xs \<noteq> [] \<longleftrightarrow> (\<exists>v \<in> set xs. a \<le> v \<and> v \<le> b)"
  by (simp add: sel_slice_sorted filter_empty_conv)

lemma fix_lons_180_noop:
  assumes r: "lon_range sp = 180" and ne: "lon ds \<noteq> []"
    and rng: "\<forall>v \<in> set (lon ds). v < 180" and h: "hd (lon ds) \<le> - 175"
  shows "fix_lons ds sp = Inr ds"
proof -
  from ne obtain v0 vs where l: "lon ds = v0 # vs" by (cases "lon ds") auto
  from rng have "\<not> (\<exists>v \<in> set (lon ds). 180 < v)" by fastforce
  then show ?thesis
    using r l h by (simp add: fix_lons_def item0_def)
qed

lemma window_floordiv: "0 \<le> v \<Longrightarrow> np_floordiv v d = Some 1 \<longleftrightarrow> in_window d v"
proof (cases "0 < d")
  case True
  then show ?thesis by (simp add: np_floordiv_1_pos in_window_def)
next
  case False
  assume "0 \<le> v"
  with False have "np_floordiv v d \<noteq> Some 1" "\<not> in_window d v"
    using np_floordiv_1_nonpos [of d v] by (auto simp: in_window_def)
  then show ?thesis by simp
qed

lemma fix_lons_360_layout:
  assumes r: "lon_range sp = 360"
  shows "fix_lons ds sp = Inr ds' \<longleftrightarrow>
           (\<exists>k < length (remapped sp (lon ds)).
               in_window (lon_origin sp) (remapped sp (lon ds) ! k)
             \<and> (\<forall>j < k. \<not> in_window (lon_origin sp) (remapped sp (lon ds) ! j))
             \<and> ds' = roll_lon (- int k) (assign_lon (\<lambda>v. fmod v 360) ds))"
proof -
  define ys where "ys = remapped sp (lon ds)"
  have rm: "ys = map (\<lambda>v. fmod v 360) (lon ds)"
    using r by (simp add: ys_def remapped_def)
  have len: "length ys = length (lon ds)" by (simp add: rm)
  have w: "np_floordiv (fmod (lon ds ! j) 360) (lon_origin sp) = Some 1
           \<longleftrightarrow> in_window (lon_origin sp) (ys ! j)" if "j < length (lon ds)" for j
    using that fmod_360_range [of "lon ds ! j"] by (simp add: window_floordiv rm)
  have eq: "(k < length (lon ds)
             \<and> np_floordiv (fmod (lon ds ! k) 360) (lon_origin sp) = Some 1
             \<and> (\<forall>j < k. np_floordiv (fmod (lon ds ! j) 360) (lon_origin sp) \<noteq> Some 1)
             \<and> ds' = roll_lon (- int k) (assign_lon (\<lambda>v. fmod v 360) ds))
         \<longleftrightarrow> (k < length ys \<and> in_window (lon_origin sp) (ys ! k)
             \<and> (\<forall>j < k. \<not> in_window (lon_origin sp) (ys ! j))
             \<and> ds' = roll_lon (- int k) (assign_lon (\<lambda>v. fmod v 360) ds))" for k
  proof (cases "k < length (lon ds)")
    case True
    have "np_floordiv (fmod (lon ds ! j) 360) (lon_origin sp) = Some 1
           \<longleftrightarrow> in_window (lon_origin sp) (ys ! j)" if "j < k" for j
      using that True by (intro w) simp
    then show ?thesis
      using True w [OF True] by (simp add: len)
  next
    case False
    then show ?thesis by (simp add: len)
  qed
  show ?thesis
    unfolding fix_lons_360_char [OF r] ys_def [symmetric] by (simp only: eq)
qed

text \<open>
  Claim C1, as amended.  For the two conventions, \<open>fix_lons\<close> returns a grid whose
  longitude coordinate is strictly increasing and lies within the canonical range,
  \<open>[-180, 180)\<close> or \<open>[0, 360)\<close>, exactly on the aligned source axes
  (\<open>aligned_source\<close>): those whose remapped axis lies within the canonical range and
  is cut where the rotation of the convention cuts it.  On a strictly increasing
  coordinate that \<open>fix_lons\<close> returns, a range selection \<open>[a, b]\<close> returns, as one
  block of consecutive positions, exactly the grid longitudes between \<open>a\<close> and
  \<open>b\<close>; it is non-empty exactly when the grid has a longitude in \<open>[a, b]\<close>.
  Longitudes are exact rationals here: the rounding of the float64 remap is not
  part of the statement.
\<close>

theorem fix_lons_monotone:
  assumes r: "lon_range sp = 180 \<or> lon_range sp = 360"
  shows "(aligned_source sp (lon ds) \<longleftrightarrow>
            (\<exists>ds'. fix_lons ds sp = Inr ds' \<and> sorted_wrt (<) (lon ds')
                 \<and> (\<forall>v \<in> set (lon ds'). canonical sp v)))
       \<and> (\<forall>ds'. fix_lons ds sp = Inr ds' \<and> sorted_wrt (<) (lon ds') \<longrightarrow>
            (\<forall>a b. sel_slice a b (lon ds') = filter (\<lambda>v. a \<le> v \<and> v \<le> b) (lon ds')
                 \<and> (sel_slice a b (lon ds') \<noteq> [] \<longleftrightarrow>
                      (\<exists>v \<in> set (lon ds'). a \<le> v \<and> v \<le> b))))"
proof -
  define ys where "ys = remapped sp (lon ds)"
  define n where "n = length ys"
  define d where "d = lon_origin sp"
  have al: "aligned_source sp (lon ds) \<longleftrightarrow>
     ys \<noteq> [] \<and> (\<forall>v \<in> set ys. canonical sp v) \<and>
      (if lon_range sp = 180 then
         (if - 175 < hd ys then cut_at (n - n div 2) ys else sorted_wrt (<) ys)
       else lon_range sp = 360 \<and>
         (\<exists>m < n. cut_at m ys \<and> in_window d (ys ! m) \<and> (\<forall>i < m. \<not> in_window d (ys ! i))))"
    by (simp add: aligned_source_def Let_def ys_def n_def d_def Bex_def Ball_def)
  have one: "aligned_source sp (lon ds) \<longleftrightarrow>
            (\<exists>ds'. fix_lons ds sp = Inr ds' \<and> sorted_wrt (<) (lon ds')
                 \<and> (\<forall>v \<in> set (lon ds'). canonical sp v))"
  proof (cases "lon_range sp = 180")
    case r1: True
    show ?thesis
    proof
      assume a: "aligned_source sp (lon ds)"
      then have ne: "ys \<noteq> []" by (simp add: al)
      then obtain ds' where f: "fix_lons ds sp = Inr ds'"
        unfolding fix_lons_180_char [OF r1] ys_def by simp
      from fix_lons_180_lon [OF r1 f]
      have l: "lon ds' = (if - 175 < hd ys then drop (n - n div 2) ys @ take (n - n div 2) ys
                          else ys)"
        by (simp add: ys_def n_def)
      from a r1 have "sorted_wrt (<) (lon ds')"
        by (auto simp: al l cut_at_def split: if_splits)
      moreover have "set (lon ds') = set ys"
        using fix_lons_180_set [OF r1 f] by (simp add: ys_def)
      ultimately show "\<exists>ds'. fix_lons ds sp = Inr ds' \<and> sorted_wrt (<) (lon ds')
                 \<and> (\<forall>v \<in> set (lon ds'). canonical sp v)"
        using f a by (auto simp: al)
    next
      assume "\<exists>ds'. fix_lons ds sp = Inr ds' \<and> sorted_wrt (<) (lon ds')
                 \<and> (\<forall>v \<in> set (lon ds'). canonical sp v)"
      then obtain ds' where f: "fix_lons ds sp = Inr ds'" and s: "sorted_wrt (<) (lon ds')"
        and c: "\<forall>v \<in> set (lon ds'). canonical sp v"
        by blast
      from fix_lons_180_lon [OF r1 f]
      have ne: "ys \<noteq> []"
        and l: "lon ds' = (if - 175 < hd ys then drop (n - n div 2) ys @ take (n - n div 2) ys
                          else ys)"
        by (simp_all add: ys_def n_def)
      have "set (lon ds') = set ys"
        using fix_lons_180_set [OF r1 f] by (simp add: ys_def)
      with c have "\<forall>v \<in> set ys. canonical sp v" by simp
      with ne s l r1 show "aligned_source sp (lon ds)"
        by (auto simp: al cut_at_def split: if_splits)
    qed
  next
    case False
    with r have r2: "lon_range sp = 360" by simp
    show ?thesis
    proof
      assume a: "aligned_source sp (lon ds)"
      with False obtain m where m: "m < n" and cut: "cut_at m ys"
        and w: "in_window d (ys ! m)" "\<forall>i < m. \<not> in_window d (ys ! i)"
        and c: "\<forall>v \<in> set ys. canonical sp v"
        by (auto simp: al)
      let ?ds' = "roll_lon (- int m) (assign_lon (\<lambda>v. fmod v 360) ds)"
      have f: "fix_lons ds sp = Inr ?ds'"
        unfolding fix_lons_360_layout [OF r2] using m w by (auto simp: ys_def n_def d_def)
      have ml: "m < length (lon ds)"
        using m r2 by (simp add: n_def ys_def remapped_def)
      have l: "lon ?ds' = drop m ys @ take m ys"
        using fix_lons_360_lon [OF ml] r2 by (simp add: ys_def remapped_def)
      from cut c have "sorted_wrt (<) (lon ?ds') \<and> (\<forall>v \<in> set (lon ?ds'). canonical sp v)"
        unfolding l set_cut by (simp add: cut_at_def)
      with f show "\<exists>ds'. fix_lons ds sp = Inr ds' \<and> sorted_wrt (<) (lon ds')
                 \<and> (\<forall>v \<in> set (lon ds'). canonical sp v)"
        by blast
    next
      assume "\<exists>ds'. fix_lons ds sp = Inr ds' \<and> sorted_wrt (<) (lon ds')
                 \<and> (\<forall>v \<in> set (lon ds'). canonical sp v)"
      then obtain ds' where f: "fix_lons ds sp = Inr ds'" and s: "sorted_wrt (<) (lon ds')"
        and c: "\<forall>v \<in> set (lon ds'). canonical sp v"
        by blast
      from f obtain k where k: "k < n" and w: "in_window d (ys ! k)"
          "\<forall>j < k. \<not> in_window d (ys ! j)"
        and ds': "ds' = roll_lon (- int k) (assign_lon (\<lambda>v. fmod v 360) ds)"
        unfolding fix_lons_360_layout [OF r2] by (auto simp: ys_def n_def d_def)
      have kl: "k < length (lon ds)"
        using k r2 by (simp add: n_def ys_def remapped_def)
      have l: "lon ds' = drop k ys @ take k ys"
        unfolding ds' using fix_lons_360_lon [OF kl] r2 by (simp add: ys_def remapped_def)
      from s have "cut_at k ys" by (simp add: l cut_at_def)
      moreover from c have "\<forall>v \<in> set ys. canonical sp v"
        unfolding l set_cut .
      moreover from k have "ys \<noteq> []" by (auto simp: n_def)
      ultimately show "aligned_source sp (lon ds)"
        using k w r2 False by (auto simp: al)
    qed
  qed
  have two: "sel_slice a b (lon ds') = filter (\<lambda>v. a \<le> v \<and> v \<le> b) (lon ds')
        \<and> (sel_slice a b (lon ds') \<noteq> [] \<longleftrightarrow> (\<exists>v \<in> set (lon ds'). a \<le> v \<and> v \<le> b))"
    if "sorted_wrt (<) (lon ds')" for ds' :: dataset and a b
  proof -
    from that have srt: "sorted (lon ds')" by (rule strict_sorted_imp_sorted)
    show ?thesis
      using sel_slice_sorted [OF srt] sel_slice_nonempty [OF srt] by simp
  qed
  from one two show ?thesis by blast
qed

theorem fix_lons_monotone_witness:
  "aligned_source sp_360_from_10 (lon grid_from_west)
   \<and> fix_lons grid_from_west sp_360_from_10 = Inr grid_from_10
   \<and> lon grid_from_10 = [10, 100, 190, 280]
   \<and> sel_slice 50 200 (lon grid_from_10) = [100, 190]
   \<and> aligned_source sp_180 (lon grid_east_west)
   \<and> fix_lons grid_east_west sp_180 = Inr grid_0_360_as_180
   \<and> lon grid_0_360_as_180 = [- 180, - 90, 0, 90]
   \<and> sel_slice (- 100) 10 (lon grid_0_360_as_180) = [- 90, 0]"
proof -
  have r1: "lon_range sp_360_from_10 = 180 \<or> lon_range sp_360_from_10 = 360"
    and r2: "lon_range sp_180 = 180 \<or> lon_range sp_180 = 360"
    by (simp_all add: sp_360_from_10_def sp_360_def sp_180_def)
  have e1: "fix_lons grid_from_west sp_360_from_10 = Inr grid_from_10"
    and e2: "fix_lons grid_east_west sp_180 = Inr grid_0_360_as_180"
    by code_simp+
  have l1: "lon grid_from_10 = [10, 100, 190, 280]"
    and l2: "lon grid_0_360_as_180 = [- 180, - 90, 0, 90]"
    by (simp_all add: grid_from_10_def grid_0_360_as_180_def)
  have s1: "sorted_wrt (<) (lon grid_from_10)"
    and s2: "sorted_wrt (<) (lon grid_0_360_as_180)"
    by (simp_all add: l1 l2)
  have c1: "\<forall>v \<in> set (lon grid_from_10). canonical sp_360_from_10 v"
    and c2: "\<forall>v \<in> set (lon grid_0_360_as_180). canonical sp_180 v"
    by (simp_all add: l1 l2 canonical_def sp_360_from_10_def sp_360_def sp_180_def)
  from fix_lons_monotone [OF r1, of grid_from_west] e1 s1 c1
  have al1: "aligned_source sp_360_from_10 (lon grid_from_west)"
    and sl1: "sel_slice 50 200 (lon grid_from_10)
              = filter (\<lambda>v. 50 \<le> v \<and> v \<le> 200) (lon grid_from_10)"
    by blast+
  from fix_lons_monotone [OF r2, of grid_east_west] e2 s2 c2
  have al2: "aligned_source sp_180 (lon grid_east_west)"
    and sl2: "sel_slice (- 100) 10 (lon grid_0_360_as_180)
              = filter (\<lambda>v. - 100 \<le> v \<and> v \<le> 10) (lon grid_0_360_as_180)"
    by blast+
  have "filter (\<lambda>v. 50 \<le> v \<and> v \<le> 200) (lon grid_from_10) = [100, 190]"
    "filter (\<lambda>v. - 100 \<le> v \<and> v \<le> 10) (lon grid_0_360_as_180) = [- 90, 0]"
    by (simp_all add: l1 l2)
  with sl1 sl2
  have "sel_slice 50 200 (lon grid_from_10) = [100, 190]"
    "sel_slice (- 100) 10 (lon grid_0_360_as_180) = [- 90, 0]"
    by (simp_all only:)
  with al1 al2 e1 e2 l1 l2 show ?thesis by (intro conjI)
qed

theorem fix_lons_monotone_counterexample:
  "lat_in_dims grid_regional \<and> lon_range sp_180 = 180
   \<and> fix_lons grid_regional sp_180 = Inr grid_regional_rolled
   \<and> lon grid_regional_rolled = [30, 40, 10, 20]
   \<and> \<not> sorted_wrt (<) (lon grid_regional_rolled)
   \<and> lat_in_dims grid_0_360 \<and> lon_range sp_360 = 360
   \<and> fix_lons grid_0_360 sp_360 = Inr grid_0_360_from_60
   \<and> lon grid_0_360_from_60 = [90, 180, 270, 0]
   \<and> \<not> sorted_wrt (<) (lon grid_0_360_from_60)
   \<and> sel_slice 10 20 (lon grid_0_360_as_180) = []"
  by code_simp

section \<open>The catalog query on few common keys\<close>

text \<open>
  Claim C5.  The claim holds for the notebook's own list (\<open>subset_query_notebook\<close>
  below) and for every list with at least two keys of a common value
  (\<open>subset_query_refines_spec\<close> further down), but not for every list: the keys
  with a common value are fetched with \<open>itemgetter\<close> and iterated directly.  With exactly one such key
  \<open>itemgetter\<close> returns the key itself, the loop runs over its letters and the
  lookup of the first letter raises KeyError; with no such key \<open>itemgetter\<close> is
  called without arguments and raises TypeError.  (The branch for the varying keys
  guards against the first of these cases, as its comment says.)
\<close>

theorem subset_query_few_common_keys:
  "subset_query params_one_common = Inl KeyError
   \<and> subset_query params_no_common = Inl TypeError"
  by code_simp

lemma subset_query_notebook:
  "subset_query data_params_all =
     Inr (''table_id == '' @ [CHR 0x27] @ ''day'' @ [CHR 0x27]
          @ '' and member_id == '' @ [CHR 0x27] @ ''r1i1p1f1'' @ [CHR 0x27]
          @ '' and (experiment_id == '' @ [CHR 0x27] @ ''historical'' @ [CHR 0x27]
          @ '' or experiment_id == '' @ [CHR 0x27] @ ''ssp370'' @ [CHR 0x27]
          @ '' or experiment_id == '' @ [CHR 0x27] @ ''ssp585'' @ [CHR 0x27]
          @ '' or experiment_id == '' @ [CHR 0x27] @ ''historical'' @ [CHR 0x27]
          @ '' or experiment_id == '' @ [CHR 0x27] @ ''ssp370'' @ [CHR 0x27]
          @ '' or experiment_id == '' @ [CHR 0x27] @ ''ssp585'' @ [CHR 0x27]
          @ '') and (variable_id == '' @ [CHR 0x27] @ ''pr'' @ [CHR 0x27]
          @ '' or variable_id == '' @ [CHR 0x27] @ ''pr'' @ [CHR 0x27]
          @ '' or variable_id == '' @ [CHR 0x27] @ ''pr'' @ [CHR 0x27]
          @ '' or variable_id == '' @ [CHR 0x27] @ ''tas'' @ [CHR 0x27]
          @ '' or variable_id == '' @ [CHR 0x27] @ ''pr'' @ [CHR 0x27]
          @ '' or variable_id == '' @ [CHR 0x27] @ ''tas'' @ [CHR 0x27]
          @ '')'')"
  by code_simp

section \<open>Properties of the file-existence gate\<close>















section \<open>Properties of the time subsetting\<close>

lemma sub_31_30_other: "a \<noteq> CHR ''-'' \<Longrightarrow> sub_31_30 (a # cs) = a # sub_31_30 cs"
proof (cases cs)
  case Nil
  then show ?thesis by simp
next
  case (Cons b cs')
  assume "a \<noteq> CHR ''-''"
  with Cons show ?thesis by (cases cs') simp_all
qed

lemma sub_31_30_prefix: "CHR ''-'' \<notin> set y \<Longrightarrow> sub_31_30 (y @ r) = y @ sub_31_30 r"
proof (induction y)
  case Nil
  show ?case by simp
next
  case (Cons a y)
  then have "a \<noteq> CHR ''-''" by auto
  with Cons show ?case by (simp add: sub_31_30_other)
qed

lemma sub_31_30_plain: "CHR ''-'' \<notin> set d \<Longrightarrow> sub_31_30 d = d"
  using sub_31_30_prefix [of d "[]"] by simp

lemma sub_31_30_day:
  assumes "CHR ''-'' \<notin> set d"
  shows "sub_31_30 (CHR ''-'' # d) =
           (if take 2 d = ''31'' then ''-30'' @ drop 2 d else CHR ''-'' # d)"
proof (cases d)
  case Nil
  then show ?thesis by simp
next
  case (Cons c1 d1)
  show ?thesis
  proof (cases d1)
    case Nil
    with Cons show ?thesis by simp
  next
    case (Cons c2 d2)
    with \<open>d = c1 # d1\<close> assms have "CHR ''-'' \<notin> set d2" and c: "c1 \<noteq> CHR ''-''" "c2 \<noteq> CHR ''-''"
      by auto
    then have "sub_31_30 d2 = d2" and "sub_31_30 (c1 # c2 # d2) = c1 # c2 # d2"
      by (simp_all add: sub_31_30_plain sub_31_30_other)
    with Cons \<open>d = c1 # d1\<close> show ?thesis by simp
  qed
qed

lemma sub_31_30_month:
  assumes "CHR ''-'' \<notin> set m" and "take 2 m \<noteq> ''31''"
  shows "sub_31_30 (CHR ''-'' # m @ CHR ''-'' # r) = CHR ''-'' # m @ sub_31_30 (CHR ''-'' # r)"
proof (cases m)
  case Nil
  then show ?thesis by (cases r) simp_all
next
  case (Cons c1 m1)
  show ?thesis
  proof (cases m1)
    case Nil
    with Cons assms have "c1 \<noteq> CHR ''-''" by auto
    with Nil Cons show ?thesis by (simp add: sub_31_30_other)
  next
    case (Cons c2 m2)
    with \<open>m = c1 # m1\<close> assms have n: "\<not> (c1 = CHR ''3'' \<and> c2 = CHR ''1'')"
      by auto
    have "sub_31_30 (m @ CHR ''-'' # r) = m @ sub_31_30 (CHR ''-'' # r)"
      using assms(1) by (rule sub_31_30_prefix)
    with Cons \<open>m = c1 # m1\<close> n show ?thesis by auto
  qed
qed

lemma sub_31_30_date:
  assumes "CHR ''-'' \<notin> set y" "CHR ''-'' \<notin> set m" "take 2 m \<noteq> ''31''" "CHR ''-'' \<notin> set d"
  shows "sub_31_30 (y @ ''-'' @ m @ ''-'' @ d) =
           y @ ''-'' @ m @ (if take 2 d = ''31'' then ''-30'' @ drop 2 d else ''-'' @ d)"
  using assms by (simp add: sub_31_30_prefix sub_31_30_month sub_31_30_day)

lemma is_30day_nonempty:
  assumes "time ds \<noteq> []"
  shows "\<exists>mx. time_max (time ds) = Inr mx
              \<and> is_30day ds = Inr (day mx = 30 \<or> cal (hd (time ds)) = Day360)"
  using assms by (cases "time ds") (simp_all add: is_30day_def time_max_def item0_def bind_err_def)

lemma time_subset_cases:
  assumes "is_30day ds = Inr b" "time_range sp ex = Inr (start, e)"
  shows "time_subset sel ds ds_tmp sp ex = sel start (if b then sub_31_30 e else e) ds_tmp"
  using assms by (simp add: time_subset_def bind_err_def)

text \<open>
  Claim C4.  On a grid with a non-empty time axis the cell takes the calendar to
  have 30-day months when the day of the latest time stamp is 30 or the first time
  stamp is of the 360-day calendar type.  Then an end date \<open>y-m-31\<close> is replaced
  by \<open>y-m-30\<close> before the selection, and an end date with another day is passed
  on as written; on any other grid the selection gets the literal dates.  In
  particular, on a grid with 360-day time stamps the end dates \<open>y-12-31\<close> and
  \<open>y-12-30\<close> give the same result, whatever the selection function does.
  (\<open>y\<close> and \<open>m\<close> are the year and month as written, without a hyphen inside.)
\<close>

theorem time_subset_end_date:
  assumes ne: "time ds \<noteq> []"
    and y: "CHR ''-'' \<notin> set y" and m: "CHR ''-'' \<notin> set m" "take 2 m \<noteq> ''31''"
  shows "(\<exists>mx. time_max (time ds) = Inr mx
            \<and> is_30day ds = Inr (day mx = 30 \<or> cal (hd (time ds)) = Day360))
       \<and> (is_30day ds = Inr True \<and> time_range sp ex = Inr (start, y @ ''-'' @ m @ ''-31'')
            \<longrightarrow> time_subset sel ds ds_tmp sp ex = sel start (y @ ''-'' @ m @ ''-30'') ds_tmp)
       \<and> (is_30day ds = Inr True \<and> time_range sp ex = Inr (start, y @ ''-'' @ m @ ''-'' @ d)
            \<and> CHR ''-'' \<notin> set d \<and> take 2 d \<noteq> ''31''
            \<longrightarrow> time_subset sel ds ds_tmp sp ex = sel start (y @ ''-'' @ m @ ''-'' @ d) ds_tmp)
       \<and> (is_30day ds = Inr False \<and> time_range sp ex = Inr (start, e)
            \<longrightarrow> time_subset sel ds ds_tmp sp ex = sel start e ds_tmp)
       \<and> (cal (hd (time ds)) = Day360
            \<and> time_range sp ex = Inr (start, y @ ''-12-31'')
            \<and> time_range sp' ex = Inr (start, y @ ''-12-30'')
            \<longrightarrow> time_subset sel ds ds_tmp sp ex = time_subset sel ds ds_tmp sp' ex
              \<and> time_subset sel ds ds_tmp sp ex = sel start (y @ ''-12-30'') ds_tmp)"
proof -
  have a: "\<exists>mx. time_max (time ds) = Inr mx
            \<and> is_30day ds = Inr (day mx = 30 \<or> cal (hd (time ds)) = Day360)"
    using ne by (rule is_30day_nonempty)
  have s31: "sub_31_30 (y @ ''-'' @ m @ ''-31'') = y @ ''-'' @ m @ ''-30''"
    using sub_31_30_date [OF y m, of "''31''"] by simp
  have b: "time_subset sel ds ds_tmp sp ex = sel start (y @ ''-'' @ m @ ''-30'') ds_tmp"
    if "is_30day ds = Inr True" "time_range sp ex = Inr (start, y @ ''-'' @ m @ ''-31'')"
    using time_subset_cases [OF that] s31 by simp
  have c: "time_subset sel ds ds_tmp sp ex = sel start (y @ ''-'' @ m @ ''-'' @ d) ds_tmp"
    if "is_30day ds = Inr True" "time_range sp ex = Inr (start, y @ ''-'' @ m @ ''-'' @ d)"
      "CHR ''-'' \<notin> set d" "take 2 d \<noteq> ''31''"
    using time_subset_cases [OF that(1,2)] sub_31_30_date [OF y m that(3)] that(4) by simp
  have d: "time_subset sel ds ds_tmp sp ex = sel start e ds_tmp"
    if "is_30day ds = Inr False" "time_range sp ex = Inr (start, e)"
    using time_subset_cases [OF that] by simp
  have e: "time_subset sel ds ds_tmp sp ex = time_subset sel ds ds_tmp sp' ex
           \<and> time_subset sel ds ds_tmp sp ex = sel start (y @ ''-12-30'') ds_tmp"
    if h: "cal (hd (time ds)) = Day360" "time_range sp ex = Inr (start, y @ ''-12-31'')"
      "time_range sp' ex = Inr (start, y @ ''-12-30'')"
  proof -
    from a h(1) have t: "is_30day ds = Inr True" by auto
    have "sub_31_30 (y @ ''-'' @ ''12'' @ ''-'' @ ''31'') = y @ ''-'' @ ''12'' @ ''-30''"
      using sub_31_30_date [OF y, of "''12''" "''31''"] by simp
    moreover have "sub_31_30 (y @ ''-'' @ ''12'' @ ''-'' @ ''30'') = y @ ''-'' @ ''12'' @ ''-30''"
      using sub_31_30_date [OF y, of "''12''" "''30''"] by simp
    ultimately show ?thesis
      using time_subset_cases [OF t h(2)] time_subset_cases [OF t h(3)] by simp
  qed
  from a b c d e show ?thesis by blast
qed

theorem time_subset_end_date_witness:
  "is_30day grid_360day = Inr True
   \<and> time_subset sel_ymd grid_360day grid_360day sp_180 ''historical''
       = sel_ymd ''1979-01-01'' ''2014-12-30'' grid_360day
   \<and> sel_ymd ''1979-01-01'' ''2014-12-31'' grid_360day = Inl ValueError
   \<and> is_30day grid_0_360 = Inr False
   \<and> time_subset sel_ymd grid_0_360 grid_0_360 sp_180 ''historical''
       = sel_ymd ''1979-01-01'' ''2014-12-31'' grid_0_360"
proof -
  have y: "CHR ''-'' \<notin> set ''2014''" and m: "CHR ''-'' \<notin> set ''12''" "take 2 ''12'' \<noteq> ''31''"
    by simp_all
  have ne: "time grid_360day \<noteq> []" "time grid_0_360 \<noteq> []"
    by (simp_all add: grid_360day_def grid_0_360_def)
  have d: "is_30day grid_360day = Inr True" "is_30day grid_0_360 = Inr False"
    by code_simp+
  have tr: "time_range sp_180 ''historical'' = Inr (''1979-01-01'', ''2014'' @ ''-'' @ ''12'' @ ''-31'')"
    by code_simp
  have a: "time_subset sel_ymd grid_360day grid_360day sp_180 ''historical''
       = sel_ymd ''1979-01-01'' ''2014-12-30'' grid_360day"
    using time_subset_end_date [OF ne(1) y m, where sp = sp_180 and ex = "''historical''"
        and start = "''1979-01-01''" and sel = sel_ymd and ds_tmp = grid_360day] d(1) tr
    by simp
  have b: "time_subset sel_ymd grid_0_360 grid_0_360 sp_180 ''historical''
       = sel_ymd ''1979-01-01'' ''2014-12-31'' grid_0_360"
    using time_subset_end_date [OF ne(2) y m, where sp = sp_180 and ex = "''historical''"
        and start = "''1979-01-01''" and sel = sel_ymd and ds_tmp = grid_0_360
        and e = "''2014-12-31''"] d(2) tr
    by simp
  have c: "sel_ymd ''1979-01-01'' ''2014-12-31'' grid_360day = Inl ValueError"
    by code_simp
  from a b c d show ?thesis by simp
qed


section \<open>Properties of the duplicate-coordinate compensation\<close>

lemma map_nth_filter_nths:
  "map (\<lambda>i. xs ! i) (filter P [0..<length xs]) = nths xs {i. P i}"
proof (induction xs rule: rev_induct)
  case Nil
  show ?case by simp
next
  case (snoc x ys)
  have "map (\<lambda>i. (ys @ [x]) ! i) (filter P [0..<length ys])
        = map (\<lambda>i. ys ! i) (filter P [0..<length ys])"
    by (rule map_cong) (auto simp: nth_append)
  with snoc show ?case
    by (simp add: nths_append)
qed

lemma nonzero_map:
  "nonzero (map f xs) = filter (\<lambda>i. f (xs ! i)) [0..<length xs]"
  unfolding nonzero_def by (rule filter_cong) auto

lemma nonzero_less: "i \<in> set (nonzero bs) \<Longrightarrow> i < length bs"
  by (simp add: nonzero_def)

lemma isel_nonzero:
  assumes "length xs = length ref"
  shows "map (\<lambda>i. xs ! i) (nonzero (map f ref)) = nths xs {i. i < length ref \<and> f (ref ! i)}"
proof -
  have "filter (\<lambda>i. f (ref ! i)) [0..<length ref]
        = filter (\<lambda>i. i < length ref \<and> f (ref ! i)) [0..<length xs]"
    using assms by (intro filter_cong) auto
  then show ?thesis
    by (simp add: nonzero_map map_nth_filter_nths)
qed

lemma nths_cong_below:
  assumes "\<And>i. i < length xs \<Longrightarrow> i \<in> A \<longleftrightarrow> i \<in> B"
  shows "nths xs A = nths xs B"
proof -
  have "filter (\<lambda>p. snd p \<in> A) (zip xs [0..<length xs])
        = filter (\<lambda>p. snd p \<in> B) (zip xs [0..<length xs])"
    using assms by (intro filter_cong) (auto dest!: set_zip_rightD)
  then show ?thesis by (simp add: nths_def)
qed

lemma length_nths_same:
  "length xs = length ys \<Longrightarrow> length (nths xs K) = length (nths ys K)"
  by (simp add: length_nths)

lemma map_field_cong:
  "(\<And>rows. rows \<in> set (fields_of s) \<Longrightarrow> f rows = g rows) \<Longrightarrow> map_field f s = map_field g s"
  by (cases s) simp_all

lemma fields_of_map_field: "fields_of (map_field f s) = map f (fields_of s)"
  by (cases s) simp_all

lemma is_surface_map_field: "is_surface (map_field f s) = is_surface s"
  by (cases s) simp_all

lemma second_slab:
  assumes sh: "well_shaped ds" and sf: "surface ds" and t2: "2 \<le> length (time ds)"
  shows "var ds ! 1 = Surface (surface_at ds 1)
       \<and> length (surface_at ds 1) = length (lat ds)
       \<and> (\<forall>row \<in> set (surface_at ds 1). length row = length (lon ds))"
proof -
  from sh t2 have m: "var ds ! 1 \<in> set (var ds)"
    by (simp add: well_shaped_def)
  with sf have "is_surface (var ds ! 1)"
    by (simp add: surface_def list_all_iff)
  then obtain rows where v: "var ds ! 1 = Surface rows"
    by (cases "var ds ! 1") auto
  then have s: "surface_at ds 1 = rows" by (simp add: surface_at_def)
  from sh m have "\<forall>rows \<in> set (fields_of (var ds ! 1)).
      length rows = length (lat ds) \<and> (\<forall>row \<in> set rows. length row = length (lon ds))"
    unfolding well_shaped_def by blast
  with v s show ?thesis by simp
qed

lemma drop_nan_lat_surface:
  assumes sh: "well_shaped ds" and sf: "surface ds"
    and t2: "2 \<le> length (time ds)" and l2: "2 \<le> length (lon ds)"
    and dup: "has_duplicates (lat ds)"
    and K: "\<And>i. i < length (lat ds) \<Longrightarrow> i \<in> K \<longleftrightarrow> i \<in> notnan_lat ds"
  shows "drop_nan_lat ds = Inr ([Duplicate_lat (source_id ds)], keep_lat K ds)"
proof -
  define rows where "rows = surface_at ds 1"
  define ref where "ref = map (\<lambda>row. row ! 1) rows"
  define idx where "idx = nonzero (map (\<lambda>v. \<not> isnan v) ref)"
  define K0 where "K0 = {i. i < length ref \<and> \<not> isnan (ref ! i)}"
  from second_slab [OF sh sf t2]
  have v: "var ds ! 1 = Surface rows" and lr: "length ref = length (lat ds)"
    by (simp_all add: rows_def ref_def)
  have r: "ref_over_lat ds = Inr (Vec ref)"
    using t2 l2 v by (simp add: ref_over_lat_def ref_def)
  have ok: "\<not> (\<exists>i \<in> set idx. length (lat ds) \<le> i)"
    using nonzero_less [of _ "map (\<lambda>v. \<not> isnan v) ref"] by (fastforce simp: idx_def lr)
  have eqK: "nths xs K0 = nths xs K" if "length xs = length (lat ds)" for xs :: "'a list"
  proof (rule nths_cong_below)
    fix i assume "i < length xs"
    with that have i: "i < length (lat ds)" by simp
    then have "ref ! i = rows ! i ! 1"
      using lr by (simp add: ref_def)
    then show "i \<in> K0 \<longleftrightarrow> i \<in> K"
      using i lr K [OF i] by (simp add: K0_def notnan_lat_def rows_def)
  qed
  have a: "map (\<lambda>i. lat ds ! i) idx = nths (lat ds) K"
    unfolding idx_def using isel_nonzero [of "lat ds" ref "\<lambda>v. \<not> isnan v"] lr eqK [of "lat ds"]
    by (simp add: K0_def)
  have b: "map (map_field (\<lambda>rows. map (\<lambda>i. rows ! i) idx)) (var ds)
           = map (map_field (\<lambda>rows. nths rows K)) (var ds)"
  proof (rule map_cong [OF refl], rule map_field_cong)
    fix s rs assume "s \<in> set (var ds)" "rs \<in> set (fields_of s)"
    with sh have ls: "length rs = length (lat ds)" by (auto simp: well_shaped_def)
    then show "map (\<lambda>i. rs ! i) idx = nths rs K"
      unfolding idx_def using isel_nonzero [of rs ref "\<lambda>v. \<not> isnan v"] lr eqK [of rs]
      by (simp add: K0_def)
  qed
  have sel: "isel_lat idx ds = Inr (keep_lat K ds)"
    unfolding isel_lat_def keep_lat_def a b using ok by simp
  have "drop_nan_lat ds = Inr ([Duplicate_lat (source_id (keep_lat K ds))], keep_lat K ds)"
    using dup by (simp add: drop_nan_lat_def r bind_err_def idx_def [symmetric] sel)
  then show ?thesis by (simp add: keep_lat_def)
qed

lemma drop_nan_lon_surface:
  assumes sh: "well_shaped ds" and sf: "surface ds"
    and t2: "2 \<le> length (time ds)" and l2: "2 \<le> length (lat ds)"
    and dup: "has_duplicates (lon ds)"
  shows "drop_nan_lon ds = Inr ([Duplicate_lon (source_id ds)], keep_lon (notnan_lon ds) ds)"
proof -
  define rows where "rows = surface_at ds 1"
  define ref where "ref = rows ! 1"
  define idx where "idx = nonzero (map (\<lambda>v. \<not> isnan v) ref)"
  define K where "K = notnan_lon ds"
  define K0 where "K0 = {j. j < length ref \<and> \<not> isnan (ref ! j)}"
  from second_slab [OF sh sf t2]
  have v: "var ds ! 1 = Surface rows" and ln: "length rows = length (lat ds)"
    and rw: "\<forall>row \<in> set rows. length row = length (lon ds)"
    by (simp_all add: rows_def)
  from ln l2 have "ref \<in> set rows" by (simp add: ref_def)
  with rw have lr: "length ref = length (lon ds)" by simp
  have r: "ref_over_lon ds = Inr (Vec ref)"
    using t2 l2 v by (simp add: ref_over_lon_def ref_def)
  have ok: "\<not> (\<exists>j \<in> set idx. length (lon ds) \<le> j)"
    using nonzero_less [of _ "map (\<lambda>v. \<not> isnan v) ref"] by (fastforce simp: idx_def lr)
  have eqK: "nths xs K0 = nths xs K" if "length xs = length (lon ds)" for xs :: "'a list"
    using that lr by (intro nths_cong_below) (simp add: K0_def K_def notnan_lon_def rows_def ref_def)
  have a: "map (\<lambda>j. lon ds ! j) idx = nths (lon ds) K"
    unfolding idx_def using isel_nonzero [of "lon ds" ref "\<lambda>v. \<not> isnan v"] lr eqK [of "lon ds"]
    by (simp add: K0_def)
  have b: "map (map_field (map (\<lambda>row. map (\<lambda>j. row ! j) idx))) (var ds)
           = map (map_field (map (\<lambda>row. nths row K))) (var ds)"
  proof (rule map_cong [OF refl], rule map_field_cong, rule map_cong [OF refl])
    fix s rs row assume "s \<in> set (var ds)" "rs \<in> set (fields_of s)" "row \<in> set rs"
    with sh have ls: "length row = length (lon ds)" by (auto simp: well_shaped_def)
    then show "map (\<lambda>j. row ! j) idx = nths row K"
      unfolding idx_def using isel_nonzero [of row ref "\<lambda>v. \<not> isnan v"] lr eqK [of row]
      by (simp add: K0_def)
  qed
  have sel: "isel_lon idx ds = Inr (keep_lon K ds)"
    unfolding isel_lon_def keep_lon_def a b using ok by simp
  have "drop_nan_lon ds = Inr ([Duplicate_lon (source_id (keep_lon K ds))], keep_lon K ds)"
    using dup by (simp add: drop_nan_lon_def r bind_err_def idx_def [symmetric] sel)
  then show ?thesis by (simp add: keep_lon_def K_def)
qed

lemma keep_lat_shape:
  assumes sh: "well_shaped ds" and sf: "surface ds"
  shows "well_shaped (keep_lat K ds) \<and> surface (keep_lat K ds)
       \<and> time (keep_lat K ds) = time ds \<and> lon (keep_lat K ds) = lon ds
       \<and> source_id (keep_lat K ds) = source_id ds"
proof -
  have "length rows' = length (nths (lat ds) K) \<and> (\<forall>row \<in> set rows'. length row = length (lon ds))"
    if s: "s \<in> set (var ds)" and r: "rows' \<in> set (fields_of (map_field (\<lambda>rows. nths rows K) s))"
    for s rows'
  proof -
    from r obtain rows where m: "rows \<in> set (fields_of s)" and e: "rows' = nths rows K"
      by (auto simp: fields_of_map_field)
    from sh s m have l: "length rows = length (lat ds)"
      and w: "\<forall>row \<in> set rows. length row = length (lon ds)"
      by (auto simp: well_shaped_def)
    from l have "length rows' = length (nths (lat ds) K)"
      unfolding e by (rule length_nths_same)
    moreover have "\<forall>row \<in> set rows'. length row = length (lon ds)"
      using w set_nths_subset [of rows K] by (auto simp: e)
    ultimately show ?thesis by simp
  qed
  then have a: "well_shaped (keep_lat K ds)"
    using sh by (auto simp: well_shaped_def keep_lat_def)
  have b: "surface (keep_lat K ds)"
    using sf by (simp add: surface_def keep_lat_def list_all_iff is_surface_map_field)
  from a b show ?thesis by (simp add: keep_lat_def)
qed

text \<open>
  Claim C8, as amended.  On a well-shaped grid whose primary variable has the
  dimensions \<open>time, lat, lon\<close> and no others, with at least two time steps:
  \<^item> when the latitude axis has duplicate values after rounding to ten decimals and
    there are at least two longitudes, the compensation keeps exactly the latitude
    positions at which the primary variable is not NaN in the reference slice
    (second time step, second longitude), in their order, drops the others from
    the coordinate and from every field, and warns of the latitude axis;
  \<^item> the longitude axis is then treated in the same way on the resulting grid
    (reference slice: second time step, second latitude), which needs at least two
    latitudes to be left.

  In particular, when the rows of a two-element set \<open>D\<close> of latitude positions
  are all NaN at the reference time step and every other row has no NaN there,
  and the longitude axis has no duplicates, exactly the rows of \<open>D\<close> are dropped and
  the other \<open>length (lat ds) - 2\<close> rows are preserved.
\<close>

theorem fix_doubling_drops_nan:
  assumes sh: "well_shaped ds" and sf: "surface ds" and dims: "lat_in_dims ds"
    and t2: "2 \<le> length (time ds)"
  shows "(has_duplicates (lat ds) \<and> 2 \<le> length (lon ds) \<and> \<not> has_duplicates (lon ds) \<longrightarrow>
            fix_doubling ds =
              Inr ([Duplicate_lat (source_id ds)], keep_lat (notnan_lat ds) ds))
       \<and> (\<not> has_duplicates (lat ds) \<and> has_duplicates (lon ds) \<and> 2 \<le> length (lat ds) \<longrightarrow>
            fix_doubling ds =
              Inr ([Duplicate_lon (source_id ds)], keep_lon (notnan_lon ds) ds))
       \<and> (has_duplicates (lat ds) \<and> 2 \<le> length (lon ds) \<and> has_duplicates (lon ds)
            \<and> 2 \<le> length (lat (keep_lat (notnan_lat ds) ds)) \<longrightarrow>
            fix_doubling ds =
              Inr ([Duplicate_lat (source_id ds), Duplicate_lon (source_id ds)],
                   keep_lon (notnan_lon (keep_lat (notnan_lat ds) ds))
                     (keep_lat (notnan_lat ds) ds)))
       \<and> (has_duplicates (lat ds) \<and> 2 \<le> length (lon ds) \<and> \<not> has_duplicates (lon ds)
            \<and> D \<subseteq> {..<length (lat ds)} \<and> card D = 2
            \<and> (\<forall>i \<in> D. \<forall>j < length (lon ds). isnan (surface_at ds 1 ! i ! j))
            \<and> (\<forall>i < length (lat ds). i \<notin> D \<longrightarrow>
                  (\<forall>j < length (lon ds). \<not> isnan (surface_at ds 1 ! i ! j)))
          \<longrightarrow>
            fix_doubling ds = Inr ([Duplicate_lat (source_id ds)], keep_lat (- D) ds)
            \<and> length (lat (keep_lat (- D) ds)) = length (lat ds) - 2)"
proof -
  have lat_step: "drop_nan_lat ds = Inr ([Duplicate_lat (source_id ds)], keep_lat K ds)"
    if "has_duplicates (lat ds)" "2 \<le> length (lon ds)"
      and "\<And>i. i < length (lat ds) \<Longrightarrow> i \<in> K \<longleftrightarrow> i \<in> notnan_lat ds" for K
    using sh sf t2 that(2) that(1) that(3) by (rule drop_nan_lat_surface)
  have no_lat: "drop_nan_lat ds = Inr ([], ds)" if "\<not> has_duplicates (lat ds)"
    using that by (simp add: drop_nan_lat_def)
  have no_lon: "drop_nan_lon ds' = Inr ([], ds')" if "\<not> has_duplicates (lon ds')" for ds'
    using that by (simp add: drop_nan_lon_def)
  have fd: "fix_doubling ds = bind_err (drop_nan_lat ds) (\<lambda>(w1, ds1).
        bind_err (drop_nan_lon ds1) (\<lambda>(w2, ds2). Inr (w1 @ w2, ds2)))"
    using dims by (simp add: fix_doubling_def)
  have a: "fix_doubling ds = Inr ([Duplicate_lat (source_id ds)], keep_lat K ds)"
    if "has_duplicates (lat ds)" "2 \<le> length (lon ds)" "\<not> has_duplicates (lon ds)"
      and "\<And>i. i < length (lat ds) \<Longrightarrow> i \<in> K \<longleftrightarrow> i \<in> notnan_lat ds" for K
  proof -
    have "\<not> has_duplicates (lon (keep_lat K ds))"
      using that(3) by (simp add: keep_lat_def)
    moreover have "drop_nan_lat ds = Inr ([Duplicate_lat (source_id ds)], keep_lat K ds)"
      using that(1,2,4) by (rule lat_step)
    ultimately show ?thesis
      by (simp add: fd bind_err_def no_lon)
  qed
  have b: "fix_doubling ds = Inr ([Duplicate_lon (source_id ds)], keep_lon (notnan_lon ds) ds)"
    if "\<not> has_duplicates (lat ds)" "has_duplicates (lon ds)" "2 \<le> length (lat ds)"
    unfolding fd no_lat [OF that(1)]
    using drop_nan_lon_surface [OF sh sf t2 that(3) that(2)] by (simp add: bind_err_def)
  have c: "fix_doubling ds =
              Inr ([Duplicate_lat (source_id ds), Duplicate_lon (source_id ds)],
                   keep_lon (notnan_lon (keep_lat (notnan_lat ds) ds))
                     (keep_lat (notnan_lat ds) ds))"
    if h: "has_duplicates (lat ds)" "2 \<le> length (lon ds)" "has_duplicates (lon ds)"
      "2 \<le> length (lat (keep_lat (notnan_lat ds) ds))"
  proof -
    define ds1 where "ds1 = keep_lat (notnan_lat ds) ds"
    from keep_lat_shape [OF sh sf, of "notnan_lat ds"]
    have sh1: "well_shaped ds1" and sf1: "surface ds1" and t1: "2 \<le> length (time ds1)"
      and d1: "has_duplicates (lon ds1)" and id1: "source_id ds1 = source_id ds"
      using t2 h(3) by (simp_all add: ds1_def)
    from h(4) have l1: "2 \<le> length (lat ds1)" by (simp add: ds1_def)
    have "drop_nan_lat ds = Inr ([Duplicate_lat (source_id ds)], ds1)"
      unfolding ds1_def using h(1,2) by (rule lat_step) simp
    moreover have "drop_nan_lon ds1
        = Inr ([Duplicate_lon (source_id ds)], keep_lon (notnan_lon ds1) ds1)"
      using drop_nan_lon_surface [OF sh1 sf1 t1 l1 d1] by (simp add: id1)
    ultimately show ?thesis
      unfolding fd ds1_def [symmetric] by (simp add: bind_err_def)
  qed
  have d: "fix_doubling ds = Inr ([Duplicate_lat (source_id ds)], keep_lat (- D) ds)
            \<and> length (lat (keep_lat (- D) ds)) = length (lat ds) - 2"
    if h: "has_duplicates (lat ds)" "2 \<le> length (lon ds)" "\<not> has_duplicates (lon ds)"
      and D: "D \<subseteq> {..<length (lat ds)}" "card D = 2"
      and nan: "\<forall>i \<in> D. \<forall>j < length (lon ds). isnan (surface_at ds 1 ! i ! j)"
      and val: "\<forall>i < length (lat ds). i \<notin> D \<longrightarrow>
                  (\<forall>j < length (lon ds). \<not> isnan (surface_at ds 1 ! i ! j))"
  proof -
    from h(2) have one: "1 < length (lon ds)" by simp
    have K: "i \<in> - D \<longleftrightarrow> i \<in> notnan_lat ds" if "i < length (lat ds)" for i
      using that nan val one by (auto simp: notnan_lat_def)
    have f: "fix_doubling ds = Inr ([Duplicate_lat (source_id ds)], keep_lat (- D) ds)"
      using h K by (rule a)
    have "finite D" using D(1) finite_subset by blast
    have "{i. i < length (lat ds) \<and> i \<in> - D} = {..<length (lat ds)} - D"
      by auto
    then have "length (nths (lat ds) (- D)) = card ({..<length (lat ds)} - D)"
      by (simp add: length_nths)
    also have "\<dots> = length (lat ds) - 2"
      using D \<open>finite D\<close> by (simp add: card_Diff_subset)
    finally show ?thesis using f by (simp add: keep_lat_def)
  qed
  have a': "fix_doubling ds = Inr ([Duplicate_lat (source_id ds)], keep_lat (notnan_lat ds) ds)"
    if "has_duplicates (lat ds)" "2 \<le> length (lon ds)" "\<not> has_duplicates (lon ds)"
    using that by (rule a) simp
  from a' b c d show ?thesis by blast
qed

theorem fix_doubling_drops_nan_witness:
  "has_duplicates (lat grid_doubled)
   \<and> fix_doubling grid_doubled = Inr ([Duplicate_lat ''M1''], grid_undoubled)
   \<and> lat grid_doubled = [- 45, - 45 + 1 / 10 ^ 12, 0, 45, 45 + 1 / 10 ^ 12]
   \<and> lat grid_undoubled = [- 45, 0, 45]
   \<and> has_duplicates (lat grid_doubled_both) \<and> has_duplicates (lon grid_doubled_both)
   \<and> fix_doubling grid_doubled_both
       = Inr ([Duplicate_lat ''M1'', Duplicate_lon ''M1''], grid_undoubled_both)"
proof -
  have sh: "well_shaped grid_doubled" and sf: "surface grid_doubled"
    and dims: "lat_in_dims grid_doubled" and t2: "2 \<le> length (time grid_doubled)"
    by code_simp+
  have h: "has_duplicates (lat grid_doubled)" "2 \<le> length (lon grid_doubled)"
    "\<not> has_duplicates (lon grid_doubled)"
    by code_simp+
  have D: "{1, 4} \<subseteq> {..<length (lat grid_doubled)}" "card {1, 4 :: nat} = 2"
    by (simp_all add: grid_doubled_def)
  have "\<forall>i \<in> {1, 4}. \<forall>j \<in> set [0..<length (lon grid_doubled)].
          isnan (surface_at grid_doubled 1 ! i ! j)"
    by code_simp
  then have nan: "\<forall>i \<in> {1, 4}. \<forall>j < length (lon grid_doubled).
          isnan (surface_at grid_doubled 1 ! i ! j)"
    by simp
  have "\<forall>i \<in> set [0..<length (lat grid_doubled)]. i \<notin> {1, 4 :: nat} \<longrightarrow>
          (\<forall>j \<in> set [0..<length (lon grid_doubled)]. \<not> isnan (surface_at grid_doubled 1 ! i ! j))"
    by code_simp
  then have val: "\<forall>i < length (lat grid_doubled). i \<notin> {1, 4 :: nat} \<longrightarrow>
          (\<forall>j < length (lon grid_doubled). \<not> isnan (surface_at grid_doubled 1 ! i ! j))"
    by simp
  have r: "keep_lat (- {1, 4}) grid_doubled = grid_undoubled"
    by code_simp
  from fix_doubling_drops_nan [OF sh sf dims t2, of "{1, 4}"] h D nan val
  have "fix_doubling grid_doubled
        = Inr ([Duplicate_lat (source_id grid_doubled)], keep_lat (- {1, 4}) grid_doubled)"
    by blast
  moreover have "source_id grid_doubled = ''M1''"
    by (simp add: grid_doubled_def grid_0_360_def)
  ultimately have one: "fix_doubling grid_doubled = Inr ([Duplicate_lat ''M1''], grid_undoubled)"
    by (simp only: r)
  have sh': "well_shaped grid_doubled_both" and sf': "surface grid_doubled_both"
    and dims': "lat_in_dims grid_doubled_both" and t2': "2 \<le> length (time grid_doubled_both)"
    by code_simp+
  have k1: "keep_lat (notnan_lat grid_doubled_both) grid_doubled_both
            = grid_doubled_both\<lparr>lat := [- 45, 45],
                var := [Surface [[Val 0, Val 1, NaN, Val 3], [Val 20, Val 21, NaN, Val 23]],
                        Surface [[Val 0, Val 1, NaN, Val 3], [Val 20, Val 21, NaN, Val 23]]]\<rparr>"
    by (simp add: keep_lat_def notnan_lat_def surface_at_def grid_doubled_both_def nths_Cons)
  have k2: "keep_lon (notnan_lon (grid_doubled_both\<lparr>lat := [- 45, 45],
                var := [Surface [[Val 0, Val 1, NaN, Val 3], [Val 20, Val 21, NaN, Val 23]],
                        Surface [[Val 0, Val 1, NaN, Val 3], [Val 20, Val 21, NaN, Val 23]]]\<rparr>))
              (grid_doubled_both\<lparr>lat := [- 45, 45],
                var := [Surface [[Val 0, Val 1, NaN, Val 3], [Val 20, Val 21, NaN, Val 23]],
                        Surface [[Val 0, Val 1, NaN, Val 3], [Val 20, Val 21, NaN, Val 23]]]\<rparr>)
            = grid_undoubled_both"
    by (simp add: keep_lon_def notnan_lon_def surface_at_def grid_doubled_both_def
        grid_undoubled_both_def nths_Cons)
  have h': "has_duplicates (lat grid_doubled_both)" "2 \<le> length (lon grid_doubled_both)"
    "has_duplicates (lon grid_doubled_both)"
    by code_simp+
  have l': "2 \<le> length (lat (keep_lat (notnan_lat grid_doubled_both) grid_doubled_both))"
    by (simp add: k1)
  from fix_doubling_drops_nan [OF sh' sf' dims' t2', of "{}"] h' l'
  have "fix_doubling grid_doubled_both
        = Inr ([Duplicate_lat (source_id grid_doubled_both),
                Duplicate_lon (source_id grid_doubled_both)],
               keep_lon (notnan_lon (keep_lat (notnan_lat grid_doubled_both) grid_doubled_both))
                 (keep_lat (notnan_lat grid_doubled_both) grid_doubled_both))"
    by blast
  moreover have "source_id grid_doubled_both = ''M1''"
    by (simp add: grid_doubled_both_def grid_0_360_def)
  ultimately have two: "fix_doubling grid_doubled_both
       = Inr ([Duplicate_lat ''M1'', Duplicate_lon ''M1''], grid_undoubled_both)"
    by (simp only: k1 k2)
  from h(1) h'(1,3) one two show ?thesis
    by (simp add: grid_doubled_def grid_undoubled_def)
qed

theorem fix_doubling_drops_nan_counterexample:
  "has_duplicates (lat grid_doubled_one_step)
   \<and> fix_doubling grid_doubled_one_step = Inl IndexError
   \<and> has_duplicates (lat grid_doubled_levels)
   \<and> fix_doubling grid_doubled_levels = Inr ([Duplicate_lat ''M1''], grid_levels_result)
   \<and> lat grid_levels_result
       = [- 45, - 45, - 45, - 45 + 1 / 10 ^ 12, - 45 + 1 / 10 ^ 12, - 45 + 1 / 10 ^ 12]
   \<and> has_duplicates (lat grid_doubled_second_lon)
   \<and> has_duplicates (lon grid_doubled_second_lon)
   \<and> fix_doubling grid_doubled_second_lon = Inl IndexError"
  by code_simp

section \<open>The pressure-level block on a missing level\<close>

text \<open>
  Claim C7.  The claim describes what the handler of the block is written for
  (print the levels, skip this specification, go on), but the cell does not get
  there.  For a specification that asks for 500 hPa on a grid with the levels 1000
  and 850 hPa the membership test on \<open>.keys\<close> raises TypeError before the \<open>try\<close>
  block is entered; and the \<open>try\<close> block on its own raises IndexError for the
  missing level, which \<open>except KeyError\<close> does not catch.  Either exception leaves
  the loops over the specifications and the datasets.
\<close>

theorem plev_step_missing_level:
  "plev_step (Some (Some ta500)) plevs_low = Inl TypeError
   \<and> plev_try plevs_low (Some ta500) = Inl IndexError
   \<and> plev_step (Some (Some ta500)) plevs_low \<noteq> Inr (Skip_spec plevs_low)"
  by code_simp

section \<open>Properties of the ERA5 download loop\<close>

subsection \<open>Names and runs of the example\<close>

lemma span_a: "span chunk_a = ''19790101-19831231''"
  by (simp add: span_def chunk_a_def str_nat.simps digit_char_def)

lemma span_b: "span chunk_b = ''19840101-19881231''"
  by (simp add: span_def chunk_b_def str_nat.simps digit_char_def)

lemma span_all: "span (all_years cfg_vwt) = ''19790101-19881231''"
  by (simp add: span_def cfg_vwt_def str_nat.simps digit_char_def)

lemma chunks_vwt: "chunks_of cfg_vwt = Inr [chunk_a, chunk_b]"
  by (simp add: chunks_of_def cfg_vwt_def chunk_list.simps chunk_a_def chunk_b_def)

lemma cfg_fields:
  "all_years cfg_vwt \<noteq> []" "resamp cfg_vwt" "output_freq_name cfg_vwt = ''day''"
  by (simp_all add: cfg_vwt_def)

lemma glob_match_mid:
  "glob_match pre suf (pre @ mid @ suf) \<longleftrightarrow> CHR ''/'' \<notin> set mid"
  by (simp add: glob_match_def)

lemma glob_chunk_file:
  "glob_match (stem cfg) (ext cfg) (chunk_file cfg c) \<longleftrightarrow> CHR ''/'' \<notin> set (span c)"
  by (simp add: chunk_file_def glob_match_mid)

lemma chunk_file_eq: "chunk_file cfg a = chunk_file cfg b \<longleftrightarrow> span a = span b"
  by (simp add: chunk_file_def)

lemma fn_final_resamp: "resamp cfg \<Longrightarrow> fn_final cfg = chunk_file cfg (all_years cfg)"
  by (simp add: fn_final_def chunk_file_def)

lemma sub_names:
  "sub_hr ''day'' (fn0 cfg_vwt chunk_a) = chunk_file cfg_vwt chunk_a"
  "sub_hr ''day'' (fn0 cfg_vwt chunk_b) = chunk_file cfg_vwt chunk_b"
  by (simp_all add: fn0_def chunk_file_def stem_def ext_def span_a span_b cfg_vwt_def)

lemma fn0_ne:
  "fn0 cfg_vwt c \<noteq> chunk_file cfg_vwt c'"
  by (simp add: fn0_def chunk_file_def stem_def cfg_vwt_def)

lemmas era5_eval = download_var_def chunks_vwt process_chunk_def sub_names and_then_def
      fresh_def disk_first_only_def disk_second_only_def path_exists_def Let_def cfg_fields
      write_file_def delete_file_def concat_and_cleanup_def concat_write_def matching_def
      glob_chunk_file chunk_file_eq fn_final_resamp span_a span_b span_all fn0_ne fn0_ne [symmetric]

subsection \<open>Concatenation with a missing chunk file\<close>

lemma map_of_delete_file:
  "map_of (delete_file q d) p = (if p = q then None else map_of d p)"
  by (induction d) (auto simp: delete_file_def)

lemma map_of_write_file: "map_of (write_file p c d) p = Some c"
  by (simp add: write_file_def)

lemma path_exists_delete_file:
  "path_exists (delete_file q d) p \<longleftrightarrow> p \<noteq> q \<and> path_exists d p"
  by (auto simp: path_exists_def delete_file_def)

lemma path_exists_write_file:
  "path_exists (write_file q c d) p \<longleftrightarrow> p = q \<or> path_exists d p"
  by (auto simp: path_exists_def write_file_def)

lemma remove_chunks_missing:
  assumes "\<exists>c \<in> set chunks. \<not> path_exists (files st) (chunk_file cfg c)"
    and "p \<notin> chunk_file cfg ` set chunks"
  shows "\<exists>st'. remove_chunks cfg chunks st = (Some FileNotFoundError, st')
              \<and> map_of (files st') p = map_of (files st) p"
  using assms
proof (induction chunks arbitrary: st)
  case Nil
  then show ?case by simp
next
  case (Cons c0 rest)
  show ?case
  proof (cases "path_exists (files st) (chunk_file cfg c0)")
    case False
    then show ?thesis by simp
  next
    case True
    let ?st2 = "st\<lparr>files := delete_file (chunk_file cfg c0) (files st)\<rparr>"
    from Cons.prems(1) True obtain c where c: "c \<in> set rest"
      "\<not> path_exists (files st) (chunk_file cfg c)"
      by auto
    then have "\<exists>c \<in> set rest. \<not> path_exists (files ?st2) (chunk_file cfg c)"
      by (auto simp: path_exists_delete_file)
    moreover from Cons.prems(2) have "p \<notin> chunk_file cfg ` set rest" and ne: "p \<noteq> chunk_file cfg c0"
      by auto
    ultimately obtain st' where "remove_chunks cfg rest ?st2 = (Some FileNotFoundError, st')"
      "map_of (files st') p = map_of (files ?st2) p"
      using Cons.IH by blast
    with True ne show ?thesis
      by (simp add: map_of_delete_file)
  qed
qed

text \<open>
  Claim C6, as amended.  The concatenation opens whatever files match the wildcard
  and does not look at the list of chunks.  When the file of some chunk is missing
  at that time (and the final name is not itself the name of a chunk file), it
  raises before anything is written only if no file matches at all (OSError from
  \<open>open_mfdataset\<close>).  If some file matches and the time axes do not overlap, the
  final file is written from the files that are there, and the missing chunk is
  noticed only afterwards, by the cleanup loop: \<open>os.remove\<close> raises
  FileNotFoundError, and the final file stays on disk with the years of the
  matching files alone.
\<close>

theorem concat_missing_intermediate:
  assumes miss: "\<exists>c \<in> set chunks. \<not> path_exists (files st) (chunk_file cfg c)"
    and nf: "fn_final cfg \<notin> chunk_file cfg ` set chunks"
  shows "(matching cfg (files st) = [] \<longrightarrow>
            concat_and_cleanup cfg chunks st = (Some OSError, st))
       \<and> (matching cfg (files st) \<noteq> []
            \<and> distinct (concat (map snd (matching cfg (files st)))) \<longrightarrow>
            (\<exists>st'. concat_and_cleanup cfg chunks st = (Some FileNotFoundError, st')
                  \<and> map_of (files st') (fn_final cfg)
                      = Some (sort (concat (map snd (matching cfg (files st)))))))"
proof -
  let ?years = "concat (map snd (matching cfg (files st)))"
  have a: "concat_and_cleanup cfg chunks st = (Some OSError, st)"
    if "matching cfg (files st) = []"
    using that by (simp add: concat_and_cleanup_def concat_write_def and_then_def)
  have b: "\<exists>st'. concat_and_cleanup cfg chunks st = (Some FileNotFoundError, st')
                  \<and> map_of (files st') (fn_final cfg) = Some (sort ?years)"
    if m: "matching cfg (files st) \<noteq> []" "distinct ?years"
  proof -
    let ?st1 = "st\<lparr>files := write_file (fn_final cfg) (sort ?years) (files st)\<rparr>"
    have w: "concat_write cfg st = (None, ?st1)"
      using m by (simp add: concat_write_def Let_def)
    from miss obtain c where c: "c \<in> set chunks" "\<not> path_exists (files st) (chunk_file cfg c)"
      by blast
    from c(1) have "chunk_file cfg c \<in> chunk_file cfg ` set chunks" by (rule imageI)
    with nf have "chunk_file cfg c \<noteq> fn_final cfg" by metis
    with c have "\<exists>c \<in> set chunks. \<not> path_exists (files ?st1) (chunk_file cfg c)"
      by (auto simp: path_exists_write_file)
    from remove_chunks_missing [OF this nf] obtain st'
      where "remove_chunks cfg chunks ?st1 = (Some FileNotFoundError, st')"
        "map_of (files st') (fn_final cfg) = map_of (files ?st1) (fn_final cfg)"
      by blast
    then show ?thesis
      by (simp add: concat_and_cleanup_def w and_then_def map_of_write_file)
  qed
  from a b show ?thesis by blast
qed

theorem concat_missing_intermediate_witness:
  "\<exists>st'. concat_and_cleanup cfg_vwt [chunk_a, chunk_b] (fresh disk_second_only)
           = (Some FileNotFoundError, st')
         \<and> map_of (files st') (fn_final cfg_vwt) = Some chunk_b"
proof -
  let ?st = "fresh disk_second_only"
  have miss: "\<exists>c \<in> set [chunk_a, chunk_b]. \<not> path_exists (files ?st) (chunk_file cfg_vwt c)"
    by (simp add: era5_eval)
  have nf: "fn_final cfg_vwt \<notin> chunk_file cfg_vwt ` set [chunk_a, chunk_b]"
    by (simp add: era5_eval)
  have m: "matching cfg_vwt (files ?st) = disk_second_only"
    by (simp add: era5_eval)
  have "sort chunk_b = chunk_b" "distinct chunk_b"
    by (simp_all add: chunk_b_def)
  with concat_missing_intermediate [OF miss nf] m show ?thesis
    by (simp add: disk_second_only_def)
qed

theorem concat_missing_intermediate_counterexample:
  "\<not> path_exists (files (fresh disk_first_only)) (chunk_file cfg_vwt chunk_b)
   \<and> concat_and_cleanup cfg_vwt [chunk_a, chunk_b] (fresh disk_first_only)
       = (Some FileNotFoundError, fresh [(fn_final cfg_vwt, chunk_a)])
   \<and> chunk_a = [1979, 1980, 1981, 1982, 1983]
   \<and> all_years cfg_vwt = [1979, 1980, 1981, 1982, 1983, 1984, 1985, 1986, 1987, 1988]"
  by (simp add: era5_eval) (simp add: chunk_a_def cfg_vwt_def)

subsection \<open>Re-running over chunk files left on disk\<close>

text \<open>
  Claim C9.  The skip branch prints \<open>fn1\<close>, a name that is bound only in the
  download branch.  In a fresh interpreter with the file of the first chunk on disk
  the first pass of the loop takes the skip branch and raises NameError: the re-run
  stops there, with nothing fetched and the disk as it was.  (With only the second
  chunk on disk the re-run does complete; the skip message then names the file of
  the first chunk.)
\<close>

theorem rerun_first_chunk_present:
  "download_var cfg_vwt (fresh disk_first_only) = (Some NameError, fresh disk_first_only)
   \<and> download_var cfg_vwt (fresh disk_second_only)
       = (None,
          \<lparr>files = [(fn_final cfg_vwt, all_years cfg_vwt)],
           fn1 = Some (chunk_file cfg_vwt chunk_a),
           printed = [chunk_file cfg_vwt chunk_a @ '' processed!'',
                      chunk_file cfg_vwt chunk_a @ '' already exists; skipped.''],
           retrieved = [chunk_a]\<rparr>)"
  by (simp add: era5_eval) (simp add: cfg_vwt_def chunk_a_def chunk_b_def)

section \<open>The catalog query against the specification\<close>

lemma map_err_all:
  "(\<And>x. x \<in> set xs \<Longrightarrow> f x = Inr (g x)) \<Longrightarrow> map_err f xs = Inr (map g xs)"
  by (induction xs) (simp_all add: bind_err_def)

lemma getitem_key: "k \<in> set (keys d) \<Longrightarrow> getitem d k = Inr (value_of d k)"
proof -
  assume "k \<in> set (keys d)"
  then have "map_of d k \<noteq> None"
    by (simp add: keys_def map_of_eq_None_iff)
  then show ?thesis by (auto simp: getitem_def value_of_def)
qed

lemma eq_pred_key: "k \<in> set (keys d) \<Longrightarrow> eq_pred d k = Inr (equality d k)"
  by (simp add: eq_pred_def getitem_key bind_err_def equality_def)

lemma nth_nonzero_filter: "map (\<lambda>i. ks ! i) (nonzero (map P ks)) = filter P ks"
proof -
  have "map (\<lambda>i. ks ! i) (nonzero (map P ks)) = nths ks {i. i < length ks \<and> P (ks ! i)}"
    using isel_nonzero [of ks ks P] by simp
  then show ?thesis by (simp add: filter_eq_nths)
qed

lemma length_nonzero_filter: "length (nonzero (map P ks)) = length (filter P ks)"
  using nth_nonzero_filter [of ks P] by (metis length_map)

lemma join_Cons: "ys \<noteq> [] \<Longrightarrow> join s (x # ys) = x @ s @ join s ys"
  by (cases ys) simp_all

lemma join_append:
  "xs \<noteq> [] \<Longrightarrow> ys \<noteq> [] \<Longrightarrow> join s (xs @ ys) = join s xs @ s @ join s ys"
proof (induction xs)
  case Nil
  then show ?case by simp
next
  case (Cons x xs)
  show ?case
  proof (cases "xs = []")
    case True
    with Cons.prems show ?thesis by (simp add: join_Cons)
  next
    case False
    with Cons show ?thesis by (simp add: join_Cons)
  qed
qed

lemma join_groups:
  "gs \<noteq> [] \<Longrightarrow>
     ''('' @ join '') and ('' gs @ '')'' = join '' and '' (map (\<lambda>g. ''('' @ g @ '')'') gs)"
proof (induction gs)
  case Nil
  then show ?case by simp
next
  case (Cons g gs)
  show ?case
  proof (cases "gs = []")
    case True
    then show ?thesis by simp
  next
    case False
    with Cons have "''('' @ join '') and ('' gs @ '')'' = join '' and '' (map (\<lambda>g. ''('' @ g @ '')'') gs)"
      by simp
    with False show ?thesis by (simp add: join_Cons)
  qed
qed


lemma or_tail_keys:
  assumes "\<And>k d. k \<in> set ks \<Longrightarrow> d \<in> set params \<Longrightarrow> k \<in> set (keys d)"
  shows "or_tail params ks =
           Inr ('' and ('' @ join '') and (''
                  (map (\<lambda>k. join '' or '' (map (\<lambda>d. equality d k) params)) ks) @ '')'')"
proof -
  have "or_group params k = Inr (join '' or '' (map (\<lambda>d. equality d k) params))"
    if "k \<in> set ks" for k
  proof -
    have "map_err (\<lambda>d. eq_pred d k) params = Inr (map (\<lambda>d. equality d k) params)"
      using assms that by (intro map_err_all) (simp add: eq_pred_key)
    then show ?thesis by (simp add: or_group_def bind_err_def)
  qed
  then have "map_err (or_group params) ks
             = Inr (map (\<lambda>k. join '' or '' (map (\<lambda>d. equality d k) params)) ks)"
    by (intro map_err_all)
  then show ?thesis by (simp add: or_tail_def bind_err_def)
qed

text \<open>
  With at least two keys of a common value the cell builds the query of the
  specification: for a non-empty list whose entries all have the keys of the first
  one, \<open>subset_query\<close> returns \<open>spec_query\<close>.
\<close>

theorem subset_query_refines_spec:
  assumes p: "params = d0 # rest"
    and ks: "\<forall>d \<in> set params. set (keys d0) \<subseteq> set (keys d)"
    and two: "2 \<le> length (filter (common_key params) (keys d0))"
  shows "subset_query params = Inr (spec_query params)"
proof -
  let ?ks = "keys d0"
  let ?C = "common_key params"
  let ?same = "filter ?C ?ks"
  let ?vary = "filter (\<lambda>k. \<not> ?C k) ?ks"
  let ?group = "\<lambda>k. join '' or '' (map (\<lambda>d. equality d k) params)"
  have key: "k \<in> set (keys d)" if "k \<in> set ?ks" "d \<in> set params" for k d
    using ks that by blast
  have flags: "source_calls params d0 = Inr (map ?C ?ks)"
  proof -
    have "bind_err (map_err (\<lambda>x. getitem x k) params) (\<lambda>vals. Inr (length (remdups vals) = 1))
          = Inr (?C k)" if "k \<in> set ?ks" for k
    proof -
      have "map_err (\<lambda>x. getitem x k) params = Inr (map (\<lambda>d. value_of d k) params)"
        using key that by (intro map_err_all) (simp add: getitem_key)
      then show ?thesis by (simp add: bind_err_def common_key_def)
    qed
    then show ?thesis
      unfolding source_calls_def by (intro map_err_all)
  qed
  have ig: "itemgetter (nonzero (map ?C ?ks)) ?ks = Inr (Tuple ?same)"
  proof -
    from two have "2 \<le> length (nonzero (map ?C ?ks))"
      by (simp add: length_nonzero_filter)
    then obtain i j idx where "nonzero (map ?C ?ks) = i # j # idx"
      by (cases "nonzero (map ?C ?ks)"; cases "tl (nonzero (map ?C ?ks))") auto
    then show ?thesis
      using nth_nonzero_filter [of ?ks ?C] by (simp add: itemgetter_def)
  qed
  have preds: "map_err (eq_pred d0) ?same = Inr (map (equality d0) ?same)"
    by (intro map_err_all) (simp add: eq_pred_key)
  have vmap: "map Not (map ?C ?ks) = map (\<lambda>k. \<not> ?C k) ?ks"
    by simp
  have vlen: "length (nonzero (map (\<lambda>k. \<not> ?C k) ?ks)) = length ?vary"
    by (rule length_nonzero_filter)
  have vsel: "map (\<lambda>i. ?ks ! i) (nonzero (map (\<lambda>k. \<not> ?C k) ?ks)) = ?vary"
    by (rule nth_nonzero_filter)
  have tail: "or_tail params ?vary
              = Inr ('' and ('' @ join '') and ('' (map ?group ?vary) @ '')'')"
    using key by (intro or_tail_keys) auto
  from two have same_ne: "map (equality d0) ?same \<noteq> []"
    by auto
  have spec: "spec_query params
              = join '' and '' (map (equality d0) ?same
                                @ map (\<lambda>k. ''('' @ ?group k @ '')'') ?vary)"
    by (simp add: spec_query_def p Let_def)
  have glue: "join '' and '' (map (equality d0) ?same) @ '' and (''
                @ join '') and ('' (map ?group ?vary) @ '')''
              = spec_query params" if "?vary \<noteq> []"
  proof -
    from that have ne: "map ?group ?vary \<noteq> []" by simp
    have "''('' @ join '') and ('' (map ?group ?vary) @ '')''
          = join '' and '' (map (\<lambda>g. ''('' @ g @ '')'') (map ?group ?vary))"
      using ne by (rule join_groups)
    also have "\<dots> = join '' and '' (map (\<lambda>k. ''('' @ ?group k @ '')'') ?vary)"
      by (simp add: comp_def)
    finally have g: "''('' @ join '') and ('' (map ?group ?vary) @ '')''
          = join '' and '' (map (\<lambda>k. ''('' @ ?group k @ '')'') ?vary)" .
    have "join '' and '' (map (equality d0) ?same @ map (\<lambda>k. ''('' @ ?group k @ '')'') ?vary)
          = join '' and '' (map (equality d0) ?same) @ '' and ''
            @ join '' and '' (map (\<lambda>k. ''('' @ ?group k @ '')'') ?vary)"
      using same_ne that by (intro join_append) auto
    with g [symmetric] show ?thesis by (simp add: spec)
  qed
  have start: "subset_query params =
      (let q = join '' and '' (map (equality d0) ?same);
           varying = nonzero (map (\<lambda>k. \<not> ?C k) ?ks)
       in if length varying = 1 then
            bind_err (itemgetter varying ?ks) (\<lambda>k.
            bind_err (case k of Str s \<Rightarrow> or_tail params [s] | Tuple _ \<Rightarrow> Inl TypeError)
              (\<lambda>t. Inr (q @ t)))
          else if 1 < length varying then
            bind_err (itemgetter varying ?ks) (\<lambda>ks.
            bind_err (or_tail params (iter ks)) (\<lambda>t. Inr (q @ t)))
          else Inr q)"
  proof -
    have cs: "(case params of [] \<Rightarrow> a | d # _ \<Rightarrow> f d) = f d0" for a :: "pyerr + string" and f
      by (simp add: p)
    show ?thesis
      by (simp add: subset_query_def cs flags ig preds bind_err_def comp_def)
  qed
  consider "length ?vary = 0" | "length ?vary = 1" | "1 < length ?vary"
    by linarith
  then show ?thesis
  proof cases
    case 1
    then have "?vary = []" by simp
    with 1 show ?thesis
      unfolding start Let_def vlen by (simp add: spec)
  next
    case 2
    then obtain i where i: "nonzero (map (\<lambda>k. \<not> ?C k) ?ks) = [i]"
      using vlen by (cases "nonzero (map (\<lambda>k. \<not> ?C k) ?ks)") auto
    with vsel have v: "?vary = [?ks ! i]" by simp
    then have "?vary \<noteq> []" by simp
    from glue [OF this] tail 2 show ?thesis
      unfolding start Let_def vlen
      by (simp add: i itemgetter_def bind_err_def v)
  next
    case 3
    then have "2 \<le> length (nonzero (map (\<lambda>k. \<not> ?C k) ?ks))"
      using vlen by simp
    then obtain i j idx where "nonzero (map (\<lambda>k. \<not> ?C k) ?ks) = i # j # idx"
      by (cases "nonzero (map (\<lambda>k. \<not> ?C k) ?ks)";
          cases "tl (nonzero (map (\<lambda>k. \<not> ?C k) ?ks))") auto
    then have ig2: "itemgetter (nonzero (map (\<lambda>k. \<not> ?C k) ?ks)) ?ks = Inr (Tuple ?vary)"
      using vsel by (simp add: itemgetter_def)
    from 3 have "?vary \<noteq> []" by auto
    from glue [OF this] tail 3 show ?thesis
      unfolding start Let_def vlen
      by (simp add: ig2 bind_err_def)
  qed
qed

theorem subset_query_refines_spec_witness:
  "subset_query data_params_all = Inr (spec_query data_params_all)"
proof -
  have p: "data_params_all = dp ''historical'' ''pr'' #
             [dp ''ssp370'' ''pr'', dp ''ssp585'' ''pr'', dp ''historical'' ''tas'',
              dp ''ssp370'' ''pr'', dp ''ssp585'' ''tas'']"
    by (simp add: data_params_all_def)
  have ks: "\<forall>d \<in> set data_params_all.
              set (keys (dp ''historical'' ''pr'')) \<subseteq> set (keys d)"
    by (simp add: data_params_all_def dp_def keys_def)
  have two: "2 \<le> length (filter (common_key data_params_all) (keys (dp ''historical'' ''pr'')))"
    by code_simp
  from p ks two show ?thesis by (rule subset_query_refines_spec)
qed


section \<open>Further properties\<close>

subsection \<open>The 180 convention on a normalised grid\<close>

text \<open>
  On a grid that is already in \<open>[-180, 180)\<close> form with a first longitude of at
  most \<open>-175\<close>, the 180 convention of \<open>fix_lons\<close> changes nothing.
\<close>

theorem fix_lons_180_identity:
  assumes "lon_range sp = 180" and "lon ds \<noteq> []"
    and "\<forall>v \<in> set (lon ds). - 180 \<le> v \<and> v < 180" and "hd (lon ds) \<le> - 175"
  shows "fix_lons ds sp = Inr ds"
  using assms by (intro fix_lons_180_noop) auto

theorem fix_lons_180_identity_witness:
  "fix_lons grid_0_360_as_180 sp_180 = Inr grid_0_360_as_180"
proof -
  have "lon_range sp_180 = 180" "lon grid_0_360_as_180 \<noteq> []"
    "\<forall>v \<in> set (lon grid_0_360_as_180). - 180 \<le> v \<and> v < 180"
    "hd (lon grid_0_360_as_180) \<le> - 175"
    by (simp_all add: sp_180_def grid_0_360_as_180_def)
  then show ?thesis by (rule fix_lons_180_identity)
qed

subsection \<open>Chunks of years\<close>

lemma chunk_list_concat: "0 < n \<Longrightarrow> concat (chunk_list n xs) = xs"
proof (induction n xs rule: chunk_list.induct)
  case (1 n xs)
  show ?case
  proof (cases "xs = []")
    case True
    then show ?thesis by (simp add: chunk_list.simps [of n "[]"])
  next
    case False
    with 1 show ?thesis by (simp add: chunk_list.simps [of n xs])
  qed
qed

lemma chunk_list_sizes:
  "c \<in> set (chunk_list n xs) \<Longrightarrow> c \<noteq> [] \<and> length c \<le> n"
proof (induction n xs rule: chunk_list.induct)
  case (1 n xs)
  show ?case
  proof (cases "n = 0 \<or> xs = []")
    case True
    with "1.prems" show ?thesis by (simp add: chunk_list.simps [of n xs])
  next
    case False
    with "1.prems" have "c = take n xs \<or> c \<in> set (chunk_list n (drop n xs))"
      by (simp add: chunk_list.simps [of n xs])
    with False "1.IH" show ?thesis by auto
  qed
qed

lemma chunk_list_full:
  "i + 1 < length (chunk_list n xs) \<Longrightarrow> length (chunk_list n xs ! i) = n"
proof (induction n xs arbitrary: i rule: chunk_list.induct)
  case (1 n xs)
  show ?case
  proof (cases "n = 0 \<or> xs = []")
    case True
    with "1.prems" show ?thesis by (simp add: chunk_list.simps [of n xs])
  next
    case False
    then have eq: "chunk_list n xs = take n xs # chunk_list n (drop n xs)"
      by (simp add: chunk_list.simps [of n xs])
    show ?thesis
    proof (cases i)
      case 0
      with "1.prems" eq have "chunk_list n (drop n xs) \<noteq> []" by auto
      then have "drop n xs \<noteq> []" by (auto simp: chunk_list.simps [of n "drop n xs"])
      then have "n \<le> length xs" by simp
      with 0 eq show ?thesis by simp
    next
      case (Suc j)
      with "1.prems" eq have "j + 1 < length (chunk_list n (drop n xs))" by simp
      with False "1.IH" have "length (chunk_list n (drop n xs) ! j) = n" by blast
      with Suc eq show ?thesis by simp
    qed
  qed
qed

text \<open>
  With a positive chunk size the years are cut into consecutive chunks: joined in
  order the chunks give back the list of years, no chunk is empty or longer than
  the chunk size, and every chunk but the last has exactly the chunk size.
\<close>

theorem chunks_of_partition:
  assumes "0 < chunk_size cfg"
  shows "\<exists>cs. chunks_of cfg = Inr cs \<and> concat cs = all_years cfg
           \<and> (\<forall>c \<in> set cs. c \<noteq> [] \<and> length c \<le> chunk_size cfg)
           \<and> (\<forall>i. i + 1 < length cs \<longrightarrow> length (cs ! i) = chunk_size cfg)"
proof -
  let ?cs = "chunk_list (chunk_size cfg) (all_years cfg)"
  have "chunks_of cfg = Inr ?cs" using assms by (simp add: chunks_of_def)
  moreover have "concat ?cs = all_years cfg" using assms by (rule chunk_list_concat)
  moreover have "\<forall>c \<in> set ?cs. c \<noteq> [] \<and> length c \<le> chunk_size cfg"
    using chunk_list_sizes by blast
  moreover have "\<forall>i. i + 1 < length ?cs \<longrightarrow> length (?cs ! i) = chunk_size cfg"
    using chunk_list_full by blast
  ultimately show ?thesis by blast
qed

theorem chunks_of_partition_witness:
  "chunks_of cfg_vwt = Inr [chunk_a, chunk_b]
   \<and> concat [chunk_a, chunk_b] = all_years cfg_vwt
   \<and> chunks_of (cfg_vwt\<lparr>all_years := [1979, 1980, 1981, 1982, 1983]\<rparr>)
       = Inr [[1979, 1980, 1981, 1982, 1983]]
   \<and> chunks_of (cfg_vwt\<lparr>all_years := [1979, 1980, 1981, 1982, 1983, 1984, 1985, 1986,
                                         1987, 1988, 1989]\<rparr>)
       = Inr [[1979, 1980, 1981, 1982, 1983], [1984, 1985, 1986, 1987, 1988], [1989]]"
proof -
  have "0 < chunk_size cfg_vwt" by (simp add: cfg_vwt_def)
  from chunks_of_partition [OF this] chunks_vwt
  have "concat [chunk_a, chunk_b] = all_years cfg_vwt" by auto
  then show ?thesis
    by (simp add: chunks_vwt) (simp add: chunks_of_def cfg_vwt_def chunk_list.simps)
qed

end
